theory Spec2Isabelle
  imports Complex_Main "HOL-Library.Multiset"
begin

section \<open>Data model\<close>

text \<open>
  The component keeps its schedule in React state. Numbers that the code only ever
  produces through \<open>Math.round\<close>, \<open>parseInt\<close> or integer literals (minute offsets and
  durations) are integers; pixel coordinates and the zoom factor are reals (the
  exact-arithmetic reading of a JavaScript number; \<open>NaN\<close> and rounding of doubles are
  outside the model). An optional field (\<open>notes?\<close>, \<open>color?\<close>) is an \<open>option\<close>.
\<close>

record Item =
  itemId :: string
  title :: string
  startMin :: int
  durationMin :: int
  color :: string
  itemNotes :: "string option"

record PresetDef =
  key :: string
  label :: string
  standardMin :: int
  presetColor :: "string option"

text \<open>
  A clock string \<open>"HH:mm"\<close> is used only through \<open>s.split(":").map(Number)\<close>; it is
  kept as the pair of numbers that this yields.
\<close>

type_synonym hhmm = "int \<times> int"

text \<open>
  The \<open>date\<close> string is read only through \<open>parseISO(date + "T00:00:00")\<close> (and in
  file names and the header's formatted date, which are not modelled). A valid date
  value is the local wall-clock time in minutes since a fixed reference midnight
  (naive local time, no daylight-saving shift); \<open>None\<close> is JavaScript's Invalid Date.
  The field holds what \<open>parseISO\<close> yields: the local midnight of the chosen day.
\<close>

type_synonym Date = int

text \<open>
  \<open>demoLimit\<close> is the number literal in the updater of \<open>handleDragEnd\<close> that the
  item count is compared with in demo mode: \<open>100\<close> in the variant with the lane layout,
  \<open>6\<close> in \<open>src/DayFlowPreview.tsx\<close>.
\<close>

record Config =
  timelineTitle :: string
  date :: "Date option"
  startTime :: hhmm
  endTime :: hhmm
  slotSize :: int
  snap :: bool
  pxPerMin :: real
  demoMode :: bool
  demoLimit :: nat

section \<open>Utilities\<close>

definition minutesBetween :: "hhmm \<Rightarrow> hhmm \<Rightarrow> int" where
  "minutesBetween start endT = (case (start, endT) of
     ((sh, sm), (eh, em)) \<Rightarrow> eh * 60 + em - (sh * 60 + sm))"

definition clamp :: "'a::linorder \<Rightarrow> 'a \<Rightarrow> 'a \<Rightarrow> 'a" where
  "clamp n lo hi = max lo (min hi n)"

text \<open>\<open>Math.round\<close>: the nearest integer, a tie going up.\<close>

definition Math_round :: "real \<Rightarrow> int" where
  "Math_round x = \<lfloor>x + 1 / 2\<rfloor>"

definition totalMinutes :: "Config \<Rightarrow> int" where
  "totalMinutes cfg = clamp (minutesBetween (startTime cfg) (endTime cfg)) 60 (18 * 60)"

definition gridHeight :: "Config \<Rightarrow> real" where
  "gridHeight cfg = real_of_int (totalMinutes cfg) * pxPerMin cfg"

text \<open>The options of the slot-size selector.\<close>

definition slotSizes :: "int list" where
  "slotSizes = [5, 10, 15, 30, 45, 60]"

section \<open>Pointer position to minute offset\<close>

text \<open>
  The first lines of \<open>handleDragEnd\<close>: \<open>relY\<close> is the pointer position relative to the
  grid, clamped to the grid; \<open>rawOffset\<close> is \<open>Math.round(relY / pxPerMin)\<close>; \<open>snapTo\<close> is
  \<open>Math.round(offsetMin / slotSize) * slotSize\<close>, applied when \<open>snap\<close> is set.
\<close>

definition relY :: "Config \<Rightarrow> real \<Rightarrow> real \<Rightarrow> real" where
  "relY cfg rectTop pointerY = max 0 (min (gridHeight cfg) (pointerY - rectTop))"

definition rawOffset :: "Config \<Rightarrow> real \<Rightarrow> real \<Rightarrow> int" where
  "rawOffset cfg rectTop pointerY = Math_round (relY cfg rectTop pointerY / pxPerMin cfg)"

definition snapTo :: "int \<Rightarrow> int \<Rightarrow> int" where
  "snapTo offsetMin slot = Math_round (real_of_int offsetMin / real_of_int slot) * slot"

definition dropOffset :: "Config \<Rightarrow> real \<Rightarrow> real \<Rightarrow> int" where
  "dropOffset cfg rectTop pointerY =
     (let offsetMin = rawOffset cfg rectTop pointerY
      in if snap cfg then snapTo offsetMin (slotSize cfg) else offsetMin)"

section \<open>Dates, clock labels and number formatting\<close>

text \<open>
  The library calls the code makes on dates (\<open>getHours\<close>, \<open>getMinutes\<close>, date-fns
  \<open>setHours\<close>, \<open>setMinutes\<close>, \<open>addMinutes\<close>, \<open>format(dt, "h:mm a")\<close>), on a valid date.
  Setting a field replaces that field and normalises: minutes beyond 59 carry into the
  hour and the day.
\<close>

definition getHours :: "Date \<Rightarrow> int" where
  "getHours dt = (dt mod 1440) div 60"

definition getMinutes :: "Date \<Rightarrow> int" where
  "getMinutes dt = dt mod 60"

definition getDay :: "Date \<Rightarrow> int" where
  "getDay dt = dt div 1440"

definition setHours :: "Date \<Rightarrow> int \<Rightarrow> Date" where
  "setHours dt h = dt - getHours dt * 60 + h * 60"

definition setMinutes :: "Date \<Rightarrow> int \<Rightarrow> Date" where
  "setMinutes dt m = dt - getMinutes dt + m"

definition addMinutes :: "Date \<Rightarrow> int \<Rightarrow> Date" where
  "addMinutes dt n = dt + n"

fun showNat :: "nat \<Rightarrow> string" where
  "showNat n = (if n < 10 then [''0123456789'' ! n]
     else showNat (n div 10) @ [''0123456789'' ! (n mod 10)])"

declare showNat.simps [simp del]

text \<open>A number inside a template literal.\<close>

definition showInt :: "int \<Rightarrow> string" where
  "showInt i = (if i < 0 then ''-'' @ showNat (nat (- i)) else showNat (nat i))"

definition pad2 :: "int \<Rightarrow> string" where
  "pad2 n = (if n < 10 then ''0'' @ showInt n else showInt n)"

text \<open>\<open>format(dt, "h:mm a")\<close>: twelve-hour clock, two-digit minutes, AM or PM.\<close>

definition format_h_mm_a :: "Date \<Rightarrow> string" where
  "format_h_mm_a dt =
     (let h = getHours dt mod 12
      in showInt (if h = 0 then 12 else h) @ '':'' @ pad2 (getMinutes dt) @ '' ''
         @ (if getHours dt < 12 then ''AM'' else ''PM''))"

text \<open>
  \<open>timeLabelFromOffset\<close>; \<open>now\<close> is what \<open>new Date()\<close> returns, used when the date is
  invalid.
\<close>

definition timeLabelFromOffset :: "Date \<Rightarrow> Date option \<Rightarrow> hhmm \<Rightarrow> int \<Rightarrow> string" where
  "timeLabelFromOffset now day start offsetMin = (case start of (h, m) \<Rightarrow>
     (let dt = (case day of None \<Rightarrow> now | Some d \<Rightarrow> d);
          dt = setHours dt h;
          dt = setMinutes dt (m + offsetMin)
      in format_h_mm_a dt))"

section \<open>Sorting\<close>

text \<open>
  \<open>Array.prototype.sort\<close> with a comparator is stable; under a consistent comparator
  its result is that of a stable insertion sort, which is how it is modelled: an element
  goes in front of the first one it does not compare greater than.
\<close>

fun insertBy :: "('a \<Rightarrow> 'a \<Rightarrow> int) \<Rightarrow> 'a \<Rightarrow> 'a list \<Rightarrow> 'a list" where
  "insertBy cmp x [] = [x]"
| "insertBy cmp x (y # ys) = (if cmp x y \<le> 0 then x # y # ys else y # insertBy cmp x ys)"

definition sortBy :: "('a \<Rightarrow> 'a \<Rightarrow> int) \<Rightarrow> 'a list \<Rightarrow> 'a list" where
  "sortBy cmp xs = foldr (insertBy cmp) xs []"

text \<open>The comparator of \<open>exportText\<close>: \<open>a.startMin - b.startMin\<close>.\<close>

definition cmpStart :: "Item \<Rightarrow> Item \<Rightarrow> int" where
  "cmpStart a b = startMin a - startMin b"

text \<open>
  The comparator of \<open>laneLayout\<close>: \<open>a.startMin - b.startMin || b.durationMin - a.durationMin\<close>.
\<close>

definition cmpLane :: "Item \<Rightarrow> Item \<Rightarrow> int" where
  "cmpLane a b = (let d = startMin a - startMin b
     in if d \<noteq> 0 then d else durationMin b - durationMin a)"

section \<open>Export\<close>

text \<open>
  The em dash of the text export, as the three bytes it has in the UTF-8 file.
\<close>

definition emDash :: string where
  "emDash = [CHR 0xE2, CHR 0x80, CHR 0x94]"

text \<open>
  A string is truthy when it is present and not empty; \<open>orDefault s d\<close> is \<open>s || d\<close>.
\<close>

fun truthy :: "string option \<Rightarrow> bool" where
  "truthy None = False"
| "truthy (Some s) = (s \<noteq> [])"

fun orDefault :: "string option \<Rightarrow> string \<Rightarrow> string" where
  "orDefault None d = d"
| "orDefault (Some s) d = (if s \<noteq> [] then s else d)"

text \<open>The text of one item in \<open>exportText\<close> (the callback of \<open>map\<close>).\<close>

definition itemLine :: "Date \<Rightarrow> Config \<Rightarrow> Item \<Rightarrow> string" where
  "itemLine now cfg i =
     (let base = timeLabelFromOffset now (date cfg) (startTime cfg) (startMin i)
              @ '' '' @ emDash @ '' '' @ title i @ '' ('' @ showInt (durationMin i) @ '' min)''
      in case itemNotes i of
           None \<Rightarrow> base
         | Some n \<Rightarrow> if n \<noteq> [] then base @ [CHR 0x0A] @ ''    Notes: '' @ n else base)"

definition textLines :: "Date \<Rightarrow> Config \<Rightarrow> Item list \<Rightarrow> string list" where
  "textLines now cfg its = map (itemLine now cfg) (sortBy cmpStart its)"

fun joinWith :: "string \<Rightarrow> string list \<Rightarrow> string" where
  "joinWith sep [] = []"
| "joinWith sep [x] = x"
| "joinWith sep (x # y # ys) = x @ sep @ joinWith sep (y # ys)"

datatype error = RangeError | EncodingError string

text \<open>
  \<open>exportText\<close>, up to the document it hands to the browser. \<open>formatPPP\<close> is date-fns
  \<open>format(_, "PPP")\<close>, which throws on an invalid date.
\<close>

definition exportText :: "(Date \<Rightarrow> string) \<Rightarrow> Date \<Rightarrow> Config \<Rightarrow> Item list \<Rightarrow> error + string" where
  "exportText formatPPP now cfg its =
     (let lines = joinWith [CHR 0x0A] (textLines now cfg its)
      in case date cfg of
           None \<Rightarrow> Inl RangeError
         | Some d \<Rightarrow>
             Inr ((if timelineTitle cfg \<noteq> [] then timelineTitle cfg else ''DayFlow Timeline'')
                  @ [CHR 0x0A] @ ''DayFlow '' @ emDash @ '' '' @ formatPPP d
                  @ [CHR 0x0A, CHR 0x0A] @ lines))"

text \<open>
  A calendar event as \<open>exportICS\<close> builds it. The five date components are kept as
  day (the day number standing for year, month and date), hour and minute; \<open>None\<close> is
  the array of \<open>NaN\<close> that an invalid date gives.
\<close>

record IcsEvent =
  evTitle :: string
  evStart :: "(int \<times> int \<times> int) option"
  evEnd :: "(int \<times> int \<times> int) option"
  description :: string

definition dateFields :: "Date \<Rightarrow> int \<times> int \<times> int" where
  "dateFields dt = (getDay dt, getHours dt, getMinutes dt)"

text \<open>The callback of \<open>items.map\<close> in \<open>exportICS\<close>.\<close>

definition icsEvent :: "Config \<Rightarrow> Item \<Rightarrow> IcsEvent" where
  "icsEvent cfg i = (case startTime cfg of (sh, sm) \<Rightarrow>
     (let startDate = date cfg;
          start = map_option (\<lambda>d. setHours (setMinutes d (sm + startMin i)) sh) startDate;
          endD = map_option (\<lambda>d. addMinutes d (durationMin i)) start
      in \<lparr>evTitle = title i,
          evStart = map_option dateFields start,
          evEnd = map_option dateFields endD,
          description = orDefault (itemNotes i) ''Created with DayFlow by Dostal Digital''\<rparr>))"

definition icsEvents :: "Config \<Rightarrow> Item list \<Rightarrow> IcsEvent list" where
  "icsEvents cfg its = map (icsEvent cfg) its"
section \<open>Component state and handlers\<close>

text \<open>
  The state hooks of \<open>DayFlowPreview\<close> that the handlers write. \<open>alerts\<close> collects the
  messages shown with \<open>alert(...)\<close>, the only way the component reports anything to
  its user; the handlers themselves return nothing.
\<close>

record State =
  items :: "Item list"
  selected :: "Item option"
  draggingPreset :: "PresetDef option"
  draggingItemId :: "string option"
  alerts :: "string list"

definition initState :: State where
  "initState = \<lparr>items = [], selected = None, draggingPreset = None,
     draggingItemId = None, alerts = []\<rparr>"

definition BRAND_sand :: string where
  "BRAND_sand = ''#8F7A4A''"

definition PRESETS :: "PresetDef list" where
  "PRESETS =
    [\<lparr>key = ''bride-ready'', label = ''Bride Getting Ready'', standardMin = 30, presetColor = Some ''#D5654D''\<rparr>,
     \<lparr>key = ''groom-ready'', label = ''Groom Getting Ready'', standardMin = 30, presetColor = Some ''#8BAB7C''\<rparr>,
     \<lparr>key = ''couples-portraits'', label = ''Couples Portraits'', standardMin = 30, presetColor = Some ''#01363b''\<rparr>,
     \<lparr>key = ''party-photos'', label = ''Wedding Party Photos'', standardMin = 30, presetColor = Some ''#555555''\<rparr>,
     \<lparr>key = ''family-formals'', label = ''Family Formals'', standardMin = 30, presetColor = Some ''#8F7A4A''\<rparr>,
     \<lparr>key = ''first-look'', label = ''First Look'', standardMin = 15, presetColor = Some ''#27402c''\<rparr>,
     \<lparr>key = ''ceremony'', label = ''Ceremony'', standardMin = 30, presetColor = Some ''#01363b''\<rparr>,
     \<lparr>key = ''first-dance'', label = ''First Dance'', standardMin = 10, presetColor = Some ''#27402c''\<rparr>,
     \<lparr>key = ''fd-dance'', label = ''Father/Daughter Dance'', standardMin = 5, presetColor = Some ''#8F7A4A''\<rparr>,
     \<lparr>key = ''ms-dance'', label = ''Mother/Son Dance'', standardMin = 5, presetColor = Some ''#01363b''\<rparr>,
     \<lparr>key = ''md-dance'', label = ''Mother/Daughter Dance'', standardMin = 5, presetColor = Some ''#555555''\<rparr>,
     \<lparr>key = ''sfd-dance'', label = ''Step-Father/Daughter Dance'', standardMin = 5, presetColor = Some ''#8F7A4A''\<rparr>,
     \<lparr>key = ''bouquet'', label = ''Bouquet Toss'', standardMin = 5, presetColor = Some ''#27402c''\<rparr>,
     \<lparr>key = ''garter'', label = ''Garter Toss'', standardMin = 30, presetColor = Some ''#01363b''\<rparr>,
     \<lparr>key = ''grand-exit'', label = ''Grand Exit'', standardMin = 10, presetColor = Some ''#555555''\<rparr>,
     \<lparr>key = ''travel'', label = ''Travel Buffer'', standardMin = 20, presetColor = Some ''#8F7A4A''\<rparr>,
     \<lparr>key = ''custom'', label = ''Custom Item'', standardMin = 15, presetColor = Some ''#27402c''\<rparr>]"

text \<open>
  \<open>handleDragStart\<close>: the drag data carries a preset or an item id; \<open>if (itemId)\<close> is a
  truthiness test, so an empty id does not register.
\<close>

definition handleDragStart :: "PresetDef option \<Rightarrow> string option \<Rightarrow> State \<Rightarrow> State" where
  "handleDragStart preset iid s =
     (let s1 = (case preset of None \<Rightarrow> s | Some p \<Rightarrow> s\<lparr>draggingPreset := Some p\<rparr>)
      in if truthy iid then s1\<lparr>draggingItemId := iid\<rparr> else s1)"

text \<open>
  The two updaters that \<open>handleDragEnd\<close> passes to \<open>setItems\<close>: appending the new item
  unless the demo limit is reached, and re-placing the dragged item.
\<close>

definition appendItem :: "Config \<Rightarrow> Item \<Rightarrow> Item list \<Rightarrow> Item list" where
  "appendItem cfg newItem prev =
     (if demoMode cfg \<and> length prev \<ge> demoLimit cfg then prev else prev @ [newItem])"

definition moveItem :: "Config \<Rightarrow> string \<Rightarrow> int \<Rightarrow> Item list \<Rightarrow> Item list" where
  "moveItem cfg iid offsetMin prev =
     map (\<lambda>i. if itemId i = iid
               then i\<lparr>startMin := clamp offsetMin 0 (max 0 (totalMinutes cfg - durationMin i))\<rparr>
               else i) prev"

text \<open>
  \<open>handleDragEnd\<close>. \<open>rect\<close> is \<open>None\<close> when \<open>gridRef.current\<close> is unset, else the top of
  the grid's bounding rectangle; \<open>pointerY\<close> is the centre of the dragged element;
  \<open>newId\<close> is the value \<open>uuid()\<close> returns.
\<close>

definition handleDragEnd :: "Config \<Rightarrow> real option \<Rightarrow> real \<Rightarrow> string \<Rightarrow> State \<Rightarrow> State" where
  "handleDragEnd cfg rect pointerY newId s =
     (case rect of
        None \<Rightarrow> s\<lparr>draggingPreset := None, draggingItemId := None\<rparr>
      | Some rectTop \<Rightarrow>
          (let offsetMin = dropOffset cfg rectTop pointerY;
               s1 = (case draggingPreset s of
                       None \<Rightarrow> s
                     | Some p \<Rightarrow>
                         s\<lparr>items := appendItem cfg
                             \<lparr>itemId = newId, title = label p, startMin = offsetMin,
                              durationMin = standardMin p,
                              color = orDefault (presetColor p) BRAND_sand,
                              itemNotes = Some []\<rparr> (items s)\<rparr>);
               s2 = (case draggingItemId s of
                       None \<Rightarrow> s1
                     | Some iid \<Rightarrow>
                         if iid \<noteq> [] then s1\<lparr>items := moveItem cfg iid offsetMin (items s1)\<rparr>
                         else s1)
           in s2\<lparr>draggingPreset := None, draggingItemId := None\<rparr>))"

text \<open>Editor actions.\<close>

definition upsertItem :: "Item \<Rightarrow> State \<Rightarrow> State" where
  "upsertItem u s =
     s\<lparr>items := map (\<lambda>i. if itemId i = itemId u then u else i) (items s), selected := None\<rparr>"

text \<open>
  The \<open>onChange\<close> handler of the editor's duration field; the modal is rendered only
  while an item is selected, and the handler receives \<open>parseInt(e.target.value || "0")\<close>.
\<close>

definition editDuration :: "int \<Rightarrow> State \<Rightarrow> State" where
  "editDuration n s =
     s\<lparr>selected := map_option (\<lambda>sel. sel\<lparr>durationMin := clamp n 5 (12 * 60)\<rparr>) (selected s)\<rparr>"

text \<open>The Save button: \<open>upsertItem(selected)\<close>.\<close>

definition saveSelected :: "State \<Rightarrow> State" where
  "saveSelected s = (case selected s of None \<Rightarrow> s | Some sel \<Rightarrow> upsertItem sel s)"

text \<open>
  \<open>applyPalette\<close>; \<open>None\<close> is an absent colour list. The callback of \<open>map\<close> sees each
  item with its index.
\<close>

definition applyPalette :: "string list option \<Rightarrow> State \<Rightarrow> State" where
  "applyPalette colors s =
     (case colors of
        None \<Rightarrow> s
      | Some cs \<Rightarrow>
          if length cs = 0 then s
          else s\<lparr>items := map (\<lambda>(idx, it). it\<lparr>color := cs ! (idx mod length cs)\<rparr>)
                             (enumerate 0 (items s))\<rparr>)"

text \<open>
  \<open>exportICS\<close> after the events are built: \<open>createEvents\<close> is the encoder of the
  \<open>ics\<close> library. An error is shown with \<open>alert\<close> and nothing is downloaded; otherwise
  the second component is the document handed to the browser.
\<close>

definition exportICS ::
  "(IcsEvent list \<Rightarrow> string \<Rightarrow> string + string) \<Rightarrow> Config \<Rightarrow> State \<Rightarrow> State \<times> string option" where
  "exportICS createEvents cfg s =
     (case createEvents (icsEvents cfg (items s))
             (if timelineTitle cfg \<noteq> [] then timelineTitle cfg else ''DayFlow Timeline'') of
        Inl err \<Rightarrow> (s\<lparr>alerts := alerts s @ [err]\<rparr>, None)
      | Inr v \<Rightarrow> (s, Some v))"

text \<open>What was reported between two states.\<close>

definition reported :: "State \<Rightarrow> State \<Rightarrow> string list" where
  "reported s s' = drop (length (alerts s)) (alerts s')"

section \<open>Store operations\<close>

text \<open>
  The three ways the user changes the schedule, each as the handler calls it consists
  of: dropping a preset on the grid, dragging an item to another place, and typing a
  duration in the editor of an item of the list and saving.
\<close>

datatype Op =
    Insert PresetDef real string
  | Move string real
  | Resize string int

fun applyOp :: "Config \<Rightarrow> real \<Rightarrow> Op \<Rightarrow> State \<Rightarrow> State" where
  "applyOp cfg rectTop (Insert p pointerY newId) s =
     handleDragEnd cfg (Some rectTop) pointerY newId (handleDragStart (Some p) None s)"
| "applyOp cfg rectTop (Move iid pointerY) s =
     handleDragEnd cfg (Some rectTop) pointerY [] (handleDragStart None (Some iid) s)"
| "applyOp cfg rectTop (Resize iid n) s =
     (case find (\<lambda>i. itemId i = iid) (items s) of
        None \<Rightarrow> s
      | Some it \<Rightarrow> saveSelected (editDuration n (s\<lparr>selected := Some it\<rparr>)))"

fun runOps :: "Config \<Rightarrow> real \<Rightarrow> Op list \<Rightarrow> State \<Rightarrow> State" where
  "runOps cfg rectTop [] s = s"
| "runOps cfg rectTop (op # ops) s = runOps cfg rectTop ops (applyOp cfg rectTop op s)"

definition rangesOk :: "Config \<Rightarrow> Item \<Rightarrow> bool" where
  "rangesOk cfg i \<longleftrightarrow> 0 \<le> startMin i \<and> startMin i + durationMin i \<le> totalMinutes cfg
     \<and> 5 \<le> durationMin i \<and> durationMin i \<le> 720"

definition startDurOk :: "Item \<Rightarrow> bool" where
  "startDurOk i \<longleftrightarrow> 0 \<le> startMin i \<and> 5 \<le> durationMin i \<and> durationMin i \<le> 720"

section \<open>Lane layout\<close>

record Placed =
  pid :: string
  lane :: nat

record LaneLayout =
  lanesCount :: nat
  byId :: "string \<rightharpoonup> nat"

text \<open>\<open>Array.prototype.findIndex\<close>, with \<open>None\<close> for \<open>-1\<close>.\<close>

fun findIndex :: "('a \<Rightarrow> bool) \<Rightarrow> 'a list \<Rightarrow> nat option" where
  "findIndex P [] = None"
| "findIndex P (x # xs) = (if P x then Some 0 else map_option Suc (findIndex P xs))"

text \<open>The \<open>for\<close> loop of \<open>laneLayout\<close> over the sorted items.\<close>

fun laneLoop :: "Item list \<Rightarrow> int list \<Rightarrow> Placed list \<Rightarrow> int list \<times> Placed list" where
  "laneLoop [] laneEnds placed = (laneEnds, placed)"
| "laneLoop (it # rest) laneEnds placed =
     (case findIndex (\<lambda>e. e \<le> startMin it) laneEnds of
        None \<Rightarrow>
          laneLoop rest (laneEnds @ [startMin it + durationMin it])
            (placed @ [\<lparr>pid = itemId it, lane = length laneEnds\<rparr>])
      | Some l \<Rightarrow>
          laneLoop rest (laneEnds[l := startMin it + durationMin it])
            (placed @ [\<lparr>pid = itemId it, lane = l\<rparr>]))"

text \<open>\<open>Object.fromEntries\<close>: a later entry with the same key replaces an earlier one.\<close>

definition fromEntries :: "('k \<times> 'v) list \<Rightarrow> ('k \<rightharpoonup> 'v)" where
  "fromEntries kvs = foldl (\<lambda>m (k, v). m(k \<mapsto> v)) Map.empty kvs"

definition laneRun :: "Item list \<Rightarrow> int list \<times> Placed list" where
  "laneRun its = laneLoop (sortBy cmpLane its) [] []"

definition laneLayout :: "Item list \<Rightarrow> LaneLayout" where
  "laneLayout its = (case laneRun its of (laneEnds, placed) \<Rightarrow>
     \<lparr>lanesCount = max 1 (length laneEnds),
      byId = fromEntries (map (\<lambda>p. (pid p, lane p)) placed)\<rparr>)"

text \<open>
  Two items overlap when their half-open ranges \<open>[start, start + duration)\<close> intersect;
  an item is active at an instant inside its range.
\<close>

definition endMin :: "Item \<Rightarrow> int" where
  "endMin i = startMin i + durationMin i"

definition overlap :: "Item \<Rightarrow> Item \<Rightarrow> bool" where
  "overlap a b \<longleftrightarrow> startMin a < endMin b \<and> startMin b < endMin a"

definition activeAt :: "int \<Rightarrow> Item \<Rightarrow> bool" where
  "activeAt t i \<longleftrightarrow> startMin i \<le> t \<and> t < endMin i"

definition activeCount :: "int \<Rightarrow> Item list \<Rightarrow> nat" where
  "activeCount t its = length (filter (activeAt t) its)"

section \<open>Sample data\<close>

definition cfg0 :: Config where
  "cfg0 = \<lparr>timelineTitle = ''My Wedding Timeline'', date = Some 0, startTime = (11, 0),
     endTime = (20, 0), slotSize = 15, snap = True, pxPerMin = 2, demoMode = True,
     demoLimit = 100\<rparr>"

definition ceremony :: PresetDef where
  "ceremony = \<lparr>key = ''ceremony'', label = ''Ceremony'', standardMin = 30, presetColor = Some ''#01363b''\<rparr>"

definition mkItem :: "string \<Rightarrow> string \<Rightarrow> int \<Rightarrow> int \<Rightarrow> Item" where
  "mkItem i t s d = \<lparr>itemId = i, title = t, startMin = s, durationMin = d,
     color = BRAND_sand, itemNotes = Some []\<rparr>"

text \<open>A configuration the settings panel can produce.\<close>

definition validConfig :: "Config \<Rightarrow> bool" where
  "validConfig cfg \<longleftrightarrow> 0 < pxPerMin cfg \<and> slotSize cfg \<in> set slotSizes"

text \<open>A store of a hundred items, the demo limit.\<close>

definition fullItems :: "Item list" where
  "fullItems = map (\<lambda>k. mkItem (showNat k) ''Travel Buffer'' 0 20) [0..<100]"

definition opPresetsOk :: "Op \<Rightarrow> bool" where
  "opPresetsOk op = (case op of Insert p _ _ \<Rightarrow> p \<in> set PRESETS | _ \<Rightarrow> True)"

text \<open>No drag is in progress.\<close>

definition idle :: "State \<Rightarrow> bool" where
  "idle s \<longleftrightarrow> draggingPreset s = None \<and> draggingItemId s = None"

text \<open>The number of lanes the loop opens.\<close>

definition lanesUsed :: "Item list \<Rightarrow> nat" where
  "lanesUsed its = length (fst (laneRun its))"

text \<open>
  For the proofs about the loop, each processed item is paired with the lane it got;
  \<open>placedOf\<close> is the \<open>placed\<close> array that corresponds to such a list of pairs, and
  \<open>laneInv\<close> is the loop invariant: every placed item ends no later than the recorded
  end of its lane; within a lane an earlier item ends before a later one starts; each
  lane's recorded end is the end of an item in it; and at some instant as many items
  are active as there are lanes.
\<close>

definition placedOf :: "(Item \<times> nat) list \<Rightarrow> Placed list" where
  "placedOf zs = map (\<lambda>(a, l). \<lparr>pid = itemId a, lane = l\<rparr>) zs"

definition laneSep :: "Item \<times> nat \<Rightarrow> Item \<times> nat \<Rightarrow> bool" where
  "laneSep x y \<longleftrightarrow> (snd x = snd y \<longrightarrow> endMin (fst x) \<le> startMin (fst y))"

definition laneInv :: "int list \<Rightarrow> (Item \<times> nat) list \<Rightarrow> bool" where
  "laneInv laneEnds zs \<longleftrightarrow>
     (\<forall>z \<in> set zs. snd z < length laneEnds \<and> endMin (fst z) \<le> laneEnds ! snd z)
     \<and> sorted_wrt laneSep zs
     \<and> (\<forall>j < length laneEnds. \<exists>a. (a, j) \<in> set zs \<and> endMin a = laneEnds ! j)
     \<and> (laneEnds \<noteq> [] \<longrightarrow> (\<exists>t. length laneEnds \<le> activeCount t (map fst zs)))"

text \<open>The order the lane comparator sorts into.\<close>

definition laneOrder :: "Item \<Rightarrow> Item \<Rightarrow> bool" where
  "laneOrder a b \<longleftrightarrow> startMin a < startMin b
     \<or> (startMin a = startMin b \<and> durationMin b \<le> durationMin a)"

definition threeOverlapping :: "Item list" where
  "threeOverlapping = [mkItem ''c'' ''Portraits'' 20 30, mkItem ''a'' ''Ceremony'' 0 30,
     mkItem ''b'' ''First Look'' 10 30]"

definition twoTouching :: "Item list" where
  "twoTouching = [mkItem ''a'' ''Ceremony'' 0 30, mkItem ''b'' ''First Look'' 30 30]"

definition s1 :: State where
  "s1 = initState\<lparr>items := [mkItem ''a1'' ''Ceremony'' 180 30]\<rparr>"

definition sFull :: State where
  "sFull = initState\<lparr>items := fullItems\<rparr>"

text \<open>The same day with the limit of the older variant, and a store of six items.\<close>

definition cfgOld :: Config where
  "cfgOld = cfg0\<lparr>demoLimit := 6\<rparr>"

definition sSix :: State where
  "sSix = initState\<lparr>items := map (\<lambda>k. mkItem (showNat k) ''Travel Buffer'' 0 20) [0..<6]\<rparr>"

definition s4 :: State where
  "s4 = initState\<lparr>items := [mkItem ''a'' ''A'' 0 30, mkItem ''b'' ''B'' 30 30,
     mkItem ''c'' ''C'' 60 30, mkItem ''d'' ''D'' 90 30]\<rparr>"

definition coastal :: "string list" where
  "coastal = [''#2D5D7B'', ''#9DB6C6'', ''#D5C5A1'']"

definition ops0 :: "Op list" where
  "ops0 = [Insert ceremony 100 ''a1'', Resize ''a1'' 900, Move ''a1'' 1180]"

definition opsResize :: "Op list" where
  "opsResize = [Insert ceremony 100 ''a1'', Resize ''a1'' 720]"

definition twoItems :: "Item list" where
  "twoItems = [mkItem ''a'' ''Toast'' 200 10, mkItem ''b'' ''Ceremony'' 180 30]"

section \<open>Time grid\<close>

lemma Math_round_of_int: "Math_round (real_of_int k) = k"
  unfolding Math_round_def by linarith

lemma Math_round_nonneg: "0 \<le> x \<Longrightarrow> 0 \<le> Math_round x"
  unfolding Math_round_def by linarith

lemma Math_round_le_int: "x \<le> real_of_int n \<Longrightarrow> Math_round x \<le> n"
  unfolding Math_round_def by linarith

lemma totalMinutes_range: "60 \<le> totalMinutes cfg \<and> totalMinutes cfg \<le> 1080"
  unfolding totalMinutes_def clamp_def by simp

lemma relY_range:
  assumes "0 < pxPerMin cfg"
  shows "0 \<le> relY cfg rectTop pointerY" and "relY cfg rectTop pointerY \<le> gridHeight cfg"
proof -
  show "0 \<le> relY cfg rectTop pointerY"
    unfolding relY_def by simp
  have "0 \<le> gridHeight cfg"
    using assms totalMinutes_range [of cfg] unfolding gridHeight_def by simp
  then show "relY cfg rectTop pointerY \<le> gridHeight cfg"
    unfolding relY_def by simp
qed

lemma rawOffset_range:
  assumes "0 < pxPerMin cfg"
  shows "0 \<le> rawOffset cfg rectTop pointerY"
    and "rawOffset cfg rectTop pointerY \<le> totalMinutes cfg"
proof -
  let ?r = "relY cfg rectTop pointerY"
  have "0 \<le> ?r / pxPerMin cfg"
    using assms relY_range(1) [OF assms] by simp
  then show "0 \<le> rawOffset cfg rectTop pointerY"
    unfolding rawOffset_def by (rule Math_round_nonneg)
  have "?r \<le> real_of_int (totalMinutes cfg) * pxPerMin cfg"
    using relY_range(2) [OF assms] unfolding gridHeight_def .
  then have "?r / pxPerMin cfg \<le> real_of_int (totalMinutes cfg)"
    using assms by (simp add: pos_divide_le_eq)
  then show "rawOffset cfg rectTop pointerY \<le> totalMinutes cfg"
    unfolding rawOffset_def by (rule Math_round_le_int)
qed

text \<open>
  Claim C5. With a positive zoom factor, the offset computed from any pointer coordinate
  (negative, inside the grid, or far beyond it) before snapping is an integer between
  \<open>0\<close> and \<open>totalMinutes\<close>.
\<close>

theorem toOffsetMinutes_in_range:
  assumes "0 < pxPerMin cfg"
  shows "0 \<le> rawOffset cfg rectTop pointerY \<and> rawOffset cfg rectTop pointerY \<le> totalMinutes cfg"
  using rawOffset_range [OF assms] by simp

theorem toOffsetMinutes_in_range_witness:
  "0 < pxPerMin cfg0 \<and> rawOffset cfg0 100 (-250) = 0 \<and> rawOffset cfg0 100 1000000 = 540
     \<and> totalMinutes cfg0 = 540"
proof -
  have px: "0 < pxPerMin cfg0" by (simp add: cfg0_def)
  have tot: "totalMinutes cfg0 = 540"
    by (simp add: totalMinutes_def minutesBetween_def clamp_def cfg0_def)
  have pv: "pxPerMin cfg0 = 2" by (simp add: cfg0_def)
  have gh: "gridHeight cfg0 = 1080"
    by (simp add: gridHeight_def tot pv)
  have lo: "rawOffset cfg0 100 (-250) = 0"
    by (simp add: rawOffset_def relY_def gh pv Math_round_def)
  have "relY cfg0 100 1000000 = 1080"
    by (simp add: relY_def gh)
  then have hi: "rawOffset cfg0 100 1000000 = 540"
    using toOffsetMinutes_in_range [OF px, of 100 1000000]
    by (simp add: rawOffset_def Math_round_def pv)
  from px lo hi tot show ?thesis by simp
qed

text \<open>
  Claim C6. Snapping an already snapped offset changes nothing, for every integer offset and
  every slot size the selector offers.
\<close>

theorem snap_idempotent:
  assumes "slot \<in> set slotSizes"
  shows "snapTo (snapTo x slot) slot = snapTo x slot"
proof -
  have nz: "slot \<noteq> 0"
    using assms by (auto simp: slotSizes_def)
  define k where "k = Math_round (real_of_int x / real_of_int slot)"
  have "real_of_int (k * slot) / real_of_int slot = real_of_int k"
    using nz by simp
  then have "Math_round (real_of_int (k * slot) / real_of_int slot) = k"
    by (simp only: Math_round_of_int)
  then show ?thesis
    unfolding snapTo_def k_def [symmetric] by simp
qed

theorem snap_idempotent_witness:
  "(15::int) \<in> set slotSizes \<and> snapTo 52 15 = 45 \<and> snapTo (snapTo 52 15) 15 = 45"
proof -
  have m: "(15::int) \<in> set slotSizes" by (simp add: slotSizes_def)
  have v: "snapTo 52 15 = 45" by (simp add: snapTo_def Math_round_def)
  from m v snap_idempotent [OF m, of 52] show ?thesis by simp
qed

section \<open>Sorting is a stable rearrangement into the comparator's order\<close>

lemma insertBy_mset: "mset (insertBy cmp x xs) = add_mset x (mset xs)"
  by (induction xs) auto

lemma sortBy_mset: "mset (sortBy cmp xs) = mset xs"
  unfolding sortBy_def by (induction xs) (auto simp: insertBy_mset)

lemma insertBy_set: "set (insertBy cmp x xs) = insert x (set xs)"
  by (induction xs) auto

lemma sortBy_length: "length (sortBy cmp xs) = length xs"
  using sortBy_mset [of cmp xs] by (metis size_mset)


lemma insertBy_sorted_rel:
  assumes tr: "\<And>a b c. R a b \<Longrightarrow> R b c \<Longrightarrow> R a c"
    and le: "\<And>a b. cmp a b \<le> 0 \<Longrightarrow> R a b" and gt: "\<And>a b. \<not> cmp a b \<le> 0 \<Longrightarrow> R b a"
  shows "sorted_wrt R xs \<Longrightarrow> sorted_wrt R (insertBy cmp x xs)"
proof (induction xs)
  case Nil
  show ?case by simp
next
  case (Cons y ys)
  show ?case
  proof (cases "cmp x y \<le> 0")
    case True
    then have "R x y" by (rule le)
    with Cons.prems tr have "\<forall>z \<in> set (y # ys). R x z" by auto
    with True Cons.prems show ?thesis by simp
  next
    case False
    then have "R y x" by (rule gt)
    with False Cons show ?thesis by (auto simp: insertBy_set)
  qed
qed

lemma sortBy_sorted_rel:
  assumes "\<And>a b c. R a b \<Longrightarrow> R b c \<Longrightarrow> R a c"
    and "\<And>a b. cmp a b \<le> 0 \<Longrightarrow> R a b" and "\<And>a b. \<not> cmp a b \<le> 0 \<Longrightarrow> R b a"
  shows "sorted_wrt R (sortBy cmp xs)"
proof (induction xs)
  case Nil
  show ?case by (simp add: sortBy_def)
next
  case (Cons x xs)
  have "sorted_wrt R (insertBy cmp x (sortBy cmp xs))"
    using assms Cons by (rule insertBy_sorted_rel)
  then show ?case by (simp add: sortBy_def)
qed

lemma sortBy_cmpLane_order: "sorted_wrt laneOrder (sortBy cmpLane xs)"
  by (rule sortBy_sorted_rel) (auto simp: laneOrder_def cmpLane_def Let_def split: if_splits)

lemma sortBy_cmpLane_start: "sorted_wrt (\<lambda>a b. startMin a \<le> startMin b) (sortBy cmpLane xs)"
  by (rule sorted_wrt_mono_rel [OF _ sortBy_cmpLane_order]) (auto simp: laneOrder_def)

lemma sortBy_set: "set (sortBy cmp xs) = set xs"
  using sortBy_mset [of cmp xs] by (metis set_mset_mset)

lemma sortBy_sorted_start: "sorted_wrt (\<lambda>a b. startMin a \<le> startMin b) (sortBy cmpStart xs)"
  by (rule sortBy_sorted_rel) (auto simp: cmpStart_def)

section \<open>Store operations keep the start and duration ranges\<close>

lemma clamp_lower: "lo \<le> clamp n lo hi"
  unfolding clamp_def by simp

lemma snapTo_nonneg:
  assumes "0 \<le> x" and "0 < slot"
  shows "0 \<le> snapTo x slot"
proof -
  have "0 \<le> real_of_int x / real_of_int slot"
    using assms by simp
  then have "0 \<le> Math_round (real_of_int x / real_of_int slot)"
    by (rule Math_round_nonneg)
  then show ?thesis
    unfolding snapTo_def using assms(2) by simp
qed

lemma dropOffset_nonneg:
  assumes "validConfig cfg"
  shows "0 \<le> dropOffset cfg rectTop pointerY"
proof -
  have px: "0 < pxPerMin cfg" and sl: "0 < slotSize cfg"
    using assms by (auto simp: validConfig_def slotSizes_def)
  have "0 \<le> rawOffset cfg rectTop pointerY"
    using rawOffset_range(1) [OF px] .
  then show ?thesis
    unfolding dropOffset_def Let_def using snapTo_nonneg [OF _ sl] by simp
qed

lemma PRESETS_durations: "p \<in> set PRESETS \<Longrightarrow> 5 \<le> standardMin p \<and> standardMin p \<le> 720"
  unfolding PRESETS_def by auto

lemma appendItem_startDurOk:
  "list_all startDurOk prev \<Longrightarrow> startDurOk new \<Longrightarrow> list_all startDurOk (appendItem cfg new prev)"
  unfolding appendItem_def by simp

lemma moveItem_startDurOk:
  "list_all startDurOk prev \<Longrightarrow> list_all startDurOk (moveItem cfg iid off prev)"
  unfolding moveItem_def list_all_iff
  by (auto simp: startDurOk_def clamp_lower)

lemma find_in_set: "find P xs = Some x \<Longrightarrow> x \<in> set xs"
  by (induction xs) (auto split: if_splits)

lemma applyOp_idle: "idle s \<Longrightarrow> idle (applyOp cfg rectTop op s)"
  by (cases op)
    (auto simp: idle_def handleDragEnd_def handleDragStart_def Let_def saveSelected_def
      editDuration_def upsertItem_def split: option.splits)

lemma applyOp_Insert_items:
  "idle s \<Longrightarrow> items (applyOp cfg rectTop (Insert p y newId) s) =
     appendItem cfg \<lparr>itemId = newId, title = label p, startMin = dropOffset cfg rectTop y,
       durationMin = standardMin p, color = orDefault (presetColor p) BRAND_sand,
       itemNotes = Some []\<rparr> (items s)"
  by (simp add: idle_def handleDragEnd_def handleDragStart_def Let_def)

lemma applyOp_Move_items:
  "idle s \<Longrightarrow> items (applyOp cfg rectTop (Move iid y) s) =
     (if iid \<noteq> [] then moveItem cfg iid (dropOffset cfg rectTop y) (items s) else items s)"
  by (simp add: idle_def handleDragEnd_def handleDragStart_def Let_def)

lemma applyOp_Resize_items:
  "items (applyOp cfg rectTop (Resize iid n) s) =
     (case find (\<lambda>i. itemId i = iid) (items s) of
        None \<Rightarrow> items s
      | Some it \<Rightarrow> map (\<lambda>i. if itemId i = iid then it\<lparr>durationMin := clamp n 5 720\<rparr> else i) (items s))"
proof (cases "find (\<lambda>i. itemId i = iid) (items s)")
  case None
  then show ?thesis by simp
next
  case (Some it)
  then have "itemId it = iid"
    by (auto simp: find_Some_iff)
  with Some show ?thesis
    by (simp add: saveSelected_def editDuration_def upsertItem_def)
qed

lemma applyOp_startDurOk:
  assumes "validConfig cfg" and "opPresetsOk op" and "idle s"
    and "list_all startDurOk (items s)"
  shows "list_all startDurOk (items (applyOp cfg rectTop op s))"
proof (cases op)
  case (Insert p y newId)
  then have p: "5 \<le> standardMin p \<and> standardMin p \<le> 720"
    using assms(2) PRESETS_durations by (simp add: opPresetsOk_def)
  have off: "0 \<le> dropOffset cfg rectTop y"
    by (rule dropOffset_nonneg [OF assms(1)])
  show ?thesis
    unfolding Insert applyOp_Insert_items [OF assms(3)]
    using p off by (intro appendItem_startDurOk assms(4)) (simp add: startDurOk_def)
next
  case (Move iid y)
  show ?thesis
    unfolding Move applyOp_Move_items [OF assms(3)]
    using assms(4) by (simp add: moveItem_startDurOk)
next
  case (Resize iid n)
  show ?thesis
  proof (cases "find (\<lambda>i. itemId i = iid) (items s)")
    case None
    with Resize assms(4) show ?thesis by simp
  next
    case (Some it)
    then have "startDurOk it"
      using assms(4) find_in_set [OF Some] by (simp add: list_all_iff)
    then have "startDurOk (it\<lparr>durationMin := clamp n 5 720\<rparr>)"
      by (simp add: startDurOk_def clamp_def)
    then show ?thesis
      unfolding Resize applyOp_Resize_items using Some assms(4)
      by (auto simp: list_all_iff)
  qed
qed

lemma runOps_startDurOk:
  assumes "validConfig cfg"
  shows "list_all opPresetsOk ops \<Longrightarrow> idle s \<Longrightarrow> list_all startDurOk (items s) \<Longrightarrow>
     idle (runOps cfg rectTop ops s) \<and> list_all startDurOk (items (runOps cfg rectTop ops s))"
proof (induction ops arbitrary: s)
  case Nil
  then show ?case by simp
next
  case (Cons op ops)
  have "idle (applyOp cfg rectTop op s)"
    using Cons.prems(2) by (rule applyOp_idle)
  moreover have "list_all startDurOk (items (applyOp cfg rectTop op s))"
    using assms Cons.prems by (intro applyOp_startDurOk) simp_all
  ultimately show ?case
    using Cons.IH [of "applyOp cfg rectTop op s"] Cons.prems(1) by simp
qed

lemma moveItem_end_bound:
  assumes "i \<in> set (moveItem cfg iid off prev)" and "itemId i = iid"
    and "durationMin i \<le> totalMinutes cfg"
  shows "0 \<le> startMin i \<and> startMin i + durationMin i \<le> totalMinutes cfg"
proof -
  from assms(1) obtain j where j: "j \<in> set prev"
    and i: "i = (if itemId j = iid
                 then j\<lparr>startMin := clamp off 0 (max 0 (totalMinutes cfg - durationMin j))\<rparr> else j)"
    unfolding moveItem_def by auto
  from i assms(2) have ij: "i = j\<lparr>startMin := clamp off 0 (max 0 (totalMinutes cfg - durationMin j))\<rparr>"
    by (auto split: if_splits)
  then have d: "durationMin i = durationMin j" by simp
  have "startMin i \<le> totalMinutes cfg - durationMin j"
    using assms(3) d unfolding ij clamp_def by simp
  moreover have "0 \<le> startMin i"
    unfolding ij by (simp add: clamp_lower)
  ultimately show ?thesis using d by simp
qed

text \<open>
  Claim C1, as the code has it. Starting from the empty store, after every operation
  of a sequence of preset drops (presets of the catalogue), item drags and duration
  edits, every item has \<open>0 \<le> startMin\<close> and \<open>5 \<le> durationMin \<le> 720\<close>. The bound
  \<open>startMin + durationMin \<le> totalMinutes\<close> is what a drag establishes for the dragged
  item, provided its duration fits into the day at all.
\<close>

theorem ops_keep_start_and_duration_ranges:
  assumes "validConfig cfg" and "list_all opPresetsOk ops"
  shows "(\<forall>k \<le> length ops.
            list_all startDurOk (items (runOps cfg rectTop (take k ops) initState)))
       \<and> (\<forall>s iid y. idle s \<and> iid \<noteq> [] \<longrightarrow>
            (\<forall>i \<in> set (items (applyOp cfg rectTop (Move iid y) s)).
               itemId i = iid \<and> durationMin i \<le> totalMinutes cfg \<longrightarrow>
                 startMin i + durationMin i \<le> totalMinutes cfg))"
proof (intro conjI allI impI ballI)
  fix k assume "k \<le> length ops"
  have "list_all opPresetsOk (take k ops)"
    using assms(2) unfolding list_all_iff by (auto dest: in_set_takeD)
  moreover have "idle initState" and "list_all startDurOk (items initState)"
    by (simp_all add: idle_def initState_def)
  ultimately show "list_all startDurOk (items (runOps cfg rectTop (take k ops) initState))"
    using runOps_startDurOk [OF assms(1)] by blast
next
  fix s iid y i
  assume h: "idle s \<and> iid \<noteq> []"
    and i: "i \<in> set (items (applyOp cfg rectTop (Move iid y) s))"
    and b: "itemId i = iid \<and> durationMin i \<le> totalMinutes cfg"
  from h have "idle s" and "iid \<noteq> []" by simp_all
  then have "items (applyOp cfg rectTop (Move iid y) s)
      = moveItem cfg iid (dropOffset cfg rectTop y) (items s)"
    by (simp only: applyOp_Move_items if_True not_False_eq_True)
  with i have "i \<in> set (moveItem cfg iid (dropOffset cfg rectTop y) (items s))"
    by (simp only:)
  then show "startMin i + durationMin i \<le> totalMinutes cfg"
    using moveItem_end_bound b by blast
qed

lemma cfg0_total: "totalMinutes cfg0 = 540"
  by (simp add: totalMinutes_def minutesBetween_def clamp_def cfg0_def)

lemma cfg0_valid: "validConfig cfg0"
  by (simp add: validConfig_def cfg0_def slotSizes_def)

lemma cfg0_fields: "pxPerMin cfg0 = 2" "snap cfg0" "slotSize cfg0 = 15" "demoMode cfg0"
  "demoLimit cfg0 = 100"
  by (simp_all add: cfg0_def)

lemma dropOffset_cfg0: "dropOffset cfg0 100 100 = 0" "dropOffset cfg0 100 1180 = 540"
  by (simp_all add: dropOffset_def rawOffset_def relY_def gridHeight_def cfg0_total snapTo_def
      Math_round_def Let_def cfg0_fields)

lemma ceremony_preset: "ceremony \<in> set PRESETS"
  by (simp add: ceremony_def PRESETS_def)

lemma run_opsResize:
  "items (runOps cfg0 100 opsResize initState) =
     [\<lparr>itemId = ''a1'', title = ''Ceremony'', startMin = 0, durationMin = 720,
       color = ''#01363b'', itemNotes = Some []\<rparr>]"
  unfolding opsResize_def
  by (simp add: handleDragEnd_def handleDragStart_def Let_def dropOffset_cfg0 initState_def
      appendItem_def ceremony_def saveSelected_def editDuration_def upsertItem_def
      clamp_def cfg0_fields)

lemma move_s1:
  "items (applyOp cfg0 100 (Move ''a1'' 1180) s1) = [mkItem ''a1'' ''Ceremony'' 510 30]"
  by (simp add: handleDragEnd_def handleDragStart_def Let_def dropOffset_cfg0 initState_def
      s1_def moveItem_def mkItem_def clamp_def cfg0_total)

text \<open>
  A drop at the top of the grid, a duration edit and a drag to the bottom of the grid,
  on the default day from 11:00 to 20:00.
\<close>

theorem ops_keep_start_and_duration_ranges_witness:
  "validConfig cfg0 \<and> list_all opPresetsOk ops0 \<and> (3::nat) \<le> length ops0
   \<and> list_all startDurOk (items (runOps cfg0 100 (take 3 ops0) initState))
   \<and> idle s1 \<and> ''a1'' \<noteq> []
   \<and> mkItem ''a1'' ''Ceremony'' 510 30 \<in> set (items (applyOp cfg0 100 (Move ''a1'' 1180) s1))
   \<and> itemId (mkItem ''a1'' ''Ceremony'' 510 30) = ''a1''
   \<and> durationMin (mkItem ''a1'' ''Ceremony'' 510 30) \<le> totalMinutes cfg0
   \<and> startMin (mkItem ''a1'' ''Ceremony'' 510 30) + durationMin (mkItem ''a1'' ''Ceremony'' 510 30)
        \<le> totalMinutes cfg0"
proof -
  have p: "list_all opPresetsOk ops0"
    by (simp add: ops0_def opPresetsOk_def ceremony_preset)
  have n: "(3::nat) \<le> length ops0" by (simp add: ops0_def)
  have i: "idle s1" by (simp add: idle_def s1_def initState_def)
  have e: "''a1'' \<noteq> []" by simp
  have m: "mkItem ''a1'' ''Ceremony'' 510 30 \<in> set (items (applyOp cfg0 100 (Move ''a1'' 1180) s1))"
    by (simp only: move_s1 list.set_intros)
  have d: "itemId (mkItem ''a1'' ''Ceremony'' 510 30) = ''a1''"
    and t: "durationMin (mkItem ''a1'' ''Ceremony'' 510 30) \<le> totalMinutes cfg0"
    by (simp_all add: mkItem_def cfg0_total)
  note T = ops_keep_start_and_duration_ranges [OF cfg0_valid p, of 100]
  from T n have a: "list_all startDurOk (items (runOps cfg0 100 (take 3 ops0) initState))"
    by blast
  from T i e m d t
  have b: "startMin (mkItem ''a1'' ''Ceremony'' 510 30) + durationMin (mkItem ''a1'' ''Ceremony'' 510 30)
        \<le> totalMinutes cfg0"
    by blast
  from cfg0_valid p n a i e m d t b show ?thesis by blast
qed

text \<open>
  The end bound of claim C1 does not survive a duration edit: the editor accepts any
  duration up to 720 minutes, whatever the length of the day (540 minutes here).
\<close>

theorem resize_breaks_end_bound_counterexample:
  "validConfig cfg0 \<and> list_all opPresetsOk opsResize
   \<and> \<not> list_all (rangesOk cfg0) (items (runOps cfg0 100 opsResize initState))"
proof -
  have "list_all opPresetsOk opsResize"
    by (simp add: opsResize_def opPresetsOk_def ceremony_preset)
  moreover have "\<not> list_all (rangesOk cfg0) (items (runOps cfg0 100 opsResize initState))"
    unfolding run_opsResize by (simp add: rangesOk_def cfg0_total)
  ultimately show ?thesis
    using cfg0_valid by blast
qed

section \<open>Absent ids, the demo limit and palettes\<close>

lemma map_if_absent:
  "iid \<notin> itemId ` set xs \<Longrightarrow> map (\<lambda>i. if itemId i = iid then f i else i) xs = xs"
  by (induction xs) auto

lemma find_absent: "iid \<notin> itemId ` set xs \<Longrightarrow> find (\<lambda>i. itemId i = iid) xs = None"
  by (induction xs) auto

lemma applyOp_alerts: "alerts (applyOp cfg rectTop op s) = alerts s"
  by (cases op)
    (auto simp: handleDragEnd_def handleDragStart_def Let_def saveSelected_def
      editDuration_def upsertItem_def split: option.splits)

lemma reported_same: "alerts s' = alerts s \<Longrightarrow> reported s s' = []"
  unfolding reported_def by simp

text \<open>
  Claim C7, as the code has it. A drag, a duration edit or a save that names an id not in
  the list leaves the list as it is, and nothing is reported: no handler returns or
  shows an error.
\<close>

theorem absent_id_leaves_items_unchanged:
  assumes "idle s" and "iid \<notin> itemId ` set (items s)"
  shows "items (applyOp cfg rectTop (Move iid y) s) = items s
       \<and> reported s (applyOp cfg rectTop (Move iid y) s) = []
       \<and> items (applyOp cfg rectTop (Resize iid n) s) = items s
       \<and> reported s (applyOp cfg rectTop (Resize iid n) s) = []
       \<and> (itemId u = iid \<longrightarrow>
            items (upsertItem u s) = items s \<and> reported s (upsertItem u s) = [])"
proof -
  have mv: "items (applyOp cfg rectTop (Move iid y) s) = items s"
    unfolding applyOp_Move_items [OF assms(1)] moveItem_def
    using map_if_absent [OF assms(2)] by simp
  have rs: "items (applyOp cfg rectTop (Resize iid n) s) = items s"
    unfolding applyOp_Resize_items using find_absent [OF assms(2)] by simp
  have up: "itemId u = iid \<longrightarrow> items (upsertItem u s) = items s \<and> reported s (upsertItem u s) = []"
    using map_if_absent [OF assms(2), of "\<lambda>_. u"]
    by (auto simp: upsertItem_def reported_def)
  show ?thesis
    using mv rs up by (simp only: applyOp_alerts reported_same simp_thms)
qed

theorem absent_id_leaves_items_unchanged_witness:
  "idle s1 \<and> ''zz'' \<notin> itemId ` set (items s1)
     \<and> items (applyOp cfg0 100 (Move ''zz'' 400) s1) = [mkItem ''a1'' ''Ceremony'' 180 30]
     \<and> items (applyOp cfg0 100 (Resize ''zz'' 45) s1) = [mkItem ''a1'' ''Ceremony'' 180 30]
     \<and> itemId (mkItem ''zz'' ''Toast'' 0 10) = ''zz''
     \<and> items (upsertItem (mkItem ''zz'' ''Toast'' 0 10) s1) = [mkItem ''a1'' ''Ceremony'' 180 30]"
proof -
  have a: "idle s1" by (simp add: idle_def s1_def initState_def)
  have b: "''zz'' \<notin> itemId ` set (items s1)" by (simp add: s1_def mkItem_def)
  have c: "itemId (mkItem ''zz'' ''Toast'' 0 10) = ''zz''" by (simp add: mkItem_def)
  have d: "items s1 = [mkItem ''a1'' ''Ceremony'' 180 30]" by (simp add: s1_def)
  show ?thesis
    using a b c
      absent_id_leaves_items_unchanged [OF a b, of cfg0 100 400 45 "mkItem ''zz'' ''Toast'' 0 10"]
    by (simp only: d simp_thms)
qed

text \<open>
  Claim C7 asks for a \<open>NotFound\<close> error to come back from these operations. Nothing
  does: after each of them on an id that is not in the store, no message was reported.
\<close>

theorem not_found_report_counterexample:
  "reported s1 (applyOp cfg0 100 (Move ''zz'' 400) s1) = []
     \<and> reported s1 (applyOp cfg0 100 (Resize ''zz'' 45) s1) = []
     \<and> reported s1 (upsertItem (mkItem ''zz'' ''Toast'' 0 10) s1) = []"
  by (simp add: reported_def handleDragEnd_def handleDragStart_def Let_def saveSelected_def
      editDuration_def upsertItem_def s1_def initState_def mkItem_def)

text \<open>
  Claim C8, as the code has it. In demo mode, dropping a preset on a store whose item
  count has reached the limit (whichever number the variant compares with) leaves the
  list unchanged, and the refusal is silent.
\<close>

theorem insert_at_capacity_is_silent:
  assumes "demoMode cfg" and "idle s" and "demoLimit cfg \<le> length (items s)"
  shows "items (applyOp cfg rectTop (Insert p y newId) s) = items s
       \<and> reported s (applyOp cfg rectTop (Insert p y newId) s) = []"
proof -
  have "items (applyOp cfg rectTop (Insert p y newId) s) = items s"
    unfolding applyOp_Insert_items [OF assms(2)] appendItem_def using assms(1,3) by simp
  then show ?thesis
    by (simp only: applyOp_alerts reported_same simp_thms)
qed

lemma sFull_facts: "idle sFull" "length (items sFull) = 100"
  by (simp_all add: idle_def sFull_def initState_def fullItems_def)

lemma sSix_facts: "idle sSix" "length (items sSix) = 6"
  by (simp_all add: idle_def sSix_def initState_def)

lemma cfgOld_fields: "demoMode cfgOld" "demoLimit cfgOld = 6"
  by (simp_all add: cfgOld_def cfg0_def)

text \<open>A full store under either limit: a hundred items, and six items.\<close>

theorem insert_at_capacity_is_silent_witness:
  "demoMode cfg0 \<and> idle sFull \<and> demoLimit cfg0 \<le> length (items sFull)
     \<and> items (applyOp cfg0 100 (Insert ceremony 400 ''n1'') sFull) = items sFull
     \<and> length (items sFull) = 100
     \<and> demoMode cfgOld \<and> idle sSix \<and> demoLimit cfgOld \<le> length (items sSix)
     \<and> items (applyOp cfgOld 100 (Insert ceremony 400 ''n1'') sSix) = items sSix
     \<and> length (items sSix) = 6"
proof -
  have a: "demoMode cfg0" by (rule cfg0_fields)
  have b: "idle sFull" by (rule sFull_facts)
  have c: "demoLimit cfg0 \<le> length (items sFull)" by (simp add: sFull_facts cfg0_fields)
  have a': "demoMode cfgOld" by (rule cfgOld_fields)
  have b': "idle sSix" by (rule sSix_facts)
  have c': "demoLimit cfgOld \<le> length (items sSix)" by (simp add: sSix_facts cfgOld_fields)
  show ?thesis
    using a b c a' b' c' sFull_facts(2) sSix_facts(2)
      insert_at_capacity_is_silent [OF a b c, of 100 ceremony 400 "''n1''"]
      insert_at_capacity_is_silent [OF a' b' c', of 100 ceremony 400 "''n1''"]
    by (simp only: simp_thms)
qed

text \<open>
  Claim C8 asks for the refusal to be reported as \<open>CapacityExceeded\<close>. On a full store
  the drop reports nothing, under the limit of a hundred as under the limit of six.
\<close>

theorem capacity_report_counterexample:
  "length (items sFull) = 100 \<and> demoLimit cfg0 = 100
     \<and> reported sFull (applyOp cfg0 100 (Insert ceremony 400 ''n1'') sFull) = []
     \<and> length (items sSix) = 6 \<and> demoLimit cfgOld = 6
     \<and> reported sSix (applyOp cfgOld 100 (Insert ceremony 400 ''n1'') sSix) = []"
  by (simp add: sFull_facts sSix_facts cfg0_fields cfgOld_fields reported_def handleDragEnd_def
      handleDragStart_def Let_def split: option.splits)

lemma applyPalette_items:
  "cs \<noteq> [] \<Longrightarrow> items (applyPalette (Some cs) s) =
     map (\<lambda>(idx, it). it\<lparr>color := cs ! (idx mod length cs)\<rparr>) (enumerate 0 (items s))"
  by (simp add: applyPalette_def)

text \<open>
  Claim C9. A non-empty colour list gives the item at position \<open>k\<close> the colour
  \<open>cs ! (k mod length cs)\<close> and changes no other field, nor the length or order of the
  list; an empty or absent colour list changes nothing at all.
\<close>

theorem applyPalette_recolors_only:
  "(cs \<noteq> [] \<longrightarrow>
      length (items (applyPalette (Some cs) s)) = length (items s)
      \<and> (\<forall>k < length (items s).
           items (applyPalette (Some cs) s) ! k = (items s ! k)\<lparr>color := cs ! (k mod length cs)\<rparr>
           \<and> color (items (applyPalette (Some cs) s) ! k) = cs ! (k mod length cs)
           \<and> itemId (items (applyPalette (Some cs) s) ! k) = itemId (items s ! k)
           \<and> title (items (applyPalette (Some cs) s) ! k) = title (items s ! k)
           \<and> startMin (items (applyPalette (Some cs) s) ! k) = startMin (items s ! k)
           \<and> durationMin (items (applyPalette (Some cs) s) ! k) = durationMin (items s ! k)
           \<and> itemNotes (items (applyPalette (Some cs) s) ! k) = itemNotes (items s ! k)))
   \<and> applyPalette (Some []) s = s
   \<and> applyPalette None s = s"
proof (intro conjI impI allI)
  assume cs: "cs \<noteq> []"
  show "length (items (applyPalette (Some cs) s)) = length (items s)"
    by (simp add: applyPalette_items [OF cs])
next
  fix k assume cs: "cs \<noteq> []" and k: "k < length (items s)"
  have e: "items (applyPalette (Some cs) s) ! k = (items s ! k)\<lparr>color := cs ! (k mod length cs)\<rparr>"
    using k by (simp add: applyPalette_items [OF cs] nth_enumerate_eq)
  show "items (applyPalette (Some cs) s) ! k = (items s ! k)\<lparr>color := cs ! (k mod length cs)\<rparr>"
    by (rule e)
  show "color (items (applyPalette (Some cs) s) ! k) = cs ! (k mod length cs)"
    by (simp add: e)
  show "itemId (items (applyPalette (Some cs) s) ! k) = itemId (items s ! k)"
    by (simp add: e)
  show "title (items (applyPalette (Some cs) s) ! k) = title (items s ! k)"
    by (simp add: e)
  show "startMin (items (applyPalette (Some cs) s) ! k) = startMin (items s ! k)"
    by (simp add: e)
  show "durationMin (items (applyPalette (Some cs) s) ! k) = durationMin (items s ! k)"
    by (simp add: e)
  show "itemNotes (items (applyPalette (Some cs) s) ! k) = itemNotes (items s ! k)"
    by (simp add: e)
next
  show "applyPalette (Some []) s = s" by (simp add: applyPalette_def)
  show "applyPalette None s = s" by (simp add: applyPalette_def)
qed

theorem applyPalette_recolors_only_witness:
  "coastal \<noteq> [] \<and> (3::nat) < length (items s4)
     \<and> items (applyPalette (Some coastal) s4) ! 3 = (mkItem ''d'' ''D'' 90 30)\<lparr>color := ''#2D5D7B''\<rparr>
     \<and> map color (items (applyPalette (Some coastal) s4))
         = [''#2D5D7B'', ''#9DB6C6'', ''#D5C5A1'', ''#2D5D7B'']"
proof -
  have a: "coastal \<noteq> []" by (simp add: coastal_def)
  have b: "(3::nat) < length (items s4)" by (simp add: s4_def)
  have c: "items s4 ! 3 = mkItem ''d'' ''D'' 90 30" by (simp add: s4_def)
  have d: "coastal ! (3 mod length coastal) = ''#2D5D7B''" by (simp add: coastal_def)
  have e: "map color (items (applyPalette (Some coastal) s4))
         = [''#2D5D7B'', ''#9DB6C6'', ''#D5C5A1'', ''#2D5D7B'']"
    by (simp add: applyPalette_def coastal_def s4_def enumerate_eq_zip upt_rec mkItem_def)
  from applyPalette_recolors_only [of coastal s4] a b
  have "items (applyPalette (Some coastal) s4) ! 3
      = (items s4 ! 3)\<lparr>color := coastal ! (3 mod length coastal)\<rparr>"
    by blast
  with a b e show ?thesis by (simp only: c d simp_thms)
qed

section \<open>Exports\<close>

lemma set_date_fields:
  "setMinutes (setHours dt h) m = (dt div 1440) * 1440 + h * 60 + m"
proof -
  define a where "a = (dt mod 1440) div 60"
  have m60: "(dt mod 1440) mod 60 = dt mod 60"
    by (rule mod_mod_cancel) simp
  have "dt mod 1440 = a * 60 + (dt mod 1440) mod 60"
    unfolding a_def by simp
  then have split: "dt = (dt div 1440) * 1440 + a * 60 + dt mod 60"
    using m60 div_mult_mod_eq [of dt 1440] by linarith
  have "(dt - a * 60 + h * 60) mod 60 = (dt + (h - a) * 60) mod 60"
    by (simp add: algebra_simps)
  also have "\<dots> = dt mod 60"
    by (simp only: mod_mult_self1)
  finally have gm: "getMinutes (setHours dt h) = dt mod 60"
    unfolding getMinutes_def setHours_def getHours_def a_def .
  have "setMinutes (setHours dt h) m = dt - a * 60 + h * 60 - dt mod 60 + m"
    unfolding setMinutes_def gm unfolding setHours_def getHours_def a_def by simp
  with split show ?thesis by linarith
qed

lemma getHours_day_shift: "getHours (d * 1440 + x) = getHours x"
  unfolding getHours_def by simp

lemma getMinutes_day_shift: "getMinutes (d * 1440 + x) = getMinutes x"
proof -
  have "d * 1440 + x = x + (d * 24) * 60" by simp
  then show ?thesis
    unfolding getMinutes_def by (simp only: mod_mult_self1)
qed

lemma format_day_shift: "format_h_mm_a (d * 1440 + x) = format_h_mm_a x"
  unfolding format_h_mm_a_def by (simp only: getHours_day_shift getMinutes_day_shift)

lemma timeLabel_absolute:
  "timeLabelFromOffset now day (h, m) off = format_h_mm_a (h * 60 + (m + off))"
proof -
  have "format_h_mm_a (setMinutes (setHours dt h) (m + off)) = format_h_mm_a (h * 60 + (m + off))"
    for dt
    unfolding set_date_fields using format_day_shift [of "dt div 1440" "h * 60 + (m + off)"]
    by (simp add: add.assoc)
  then show ?thesis
    unfolding timeLabelFromOffset_def by (simp add: Let_def)
qed

lemma showNat_small: "showNat 0 = ''0''" "showNat 2 = ''2''" "showNat 30 = ''30''"
  by (simp_all add: showNat.simps)

lemma label_840: "format_h_mm_a 840 = ''2:00 PM''"
  by (simp add: format_h_mm_a_def getHours_def getMinutes_def pad2_def showInt_def showNat.simps)

text \<open>
  Claim C4. The text export has one entry per item, in ascending order of start (a
  rearrangement of the items); each entry is the clock label of the item's start, an em
  dash, the title and the duration in minutes, followed by an indented \<open>Notes:\<close> line
  exactly when the notes are not empty; with a valid date the document is a header
  followed by these entries, one per line. With the day starting at 11:00, an item
  "Ceremony" at offset 180 lasting 30 minutes is listed as \<open>2:00 PM \<emdash> Ceremony (30 min)\<close>.
\<close>

theorem exportText_item_lines:
  "length (textLines now cfg its) = length its
   \<and> mset (sortBy cmpStart its) = mset its
   \<and> sorted_wrt (\<lambda>a b. startMin a \<le> startMin b) (sortBy cmpStart its)
   \<and> (\<forall>k < length its.
        textLines now cfg its ! k =
          (let i = sortBy cmpStart its ! k
           in timeLabelFromOffset now (date cfg) (startTime cfg) (startMin i)
              @ '' '' @ emDash @ '' '' @ title i @ '' ('' @ showInt (durationMin i) @ '' min)''
              @ (if truthy (itemNotes i)
                 then [CHR 0x0A] @ ''    Notes: '' @ the (itemNotes i) else [])))
   \<and> (\<forall>d. date cfg = Some d \<longrightarrow>
        (\<exists>header. exportText formatPPP now cfg its
           = Inr (header @ joinWith [CHR 0x0A] (textLines now cfg its))))
   \<and> textLines now (cfg\<lparr>startTime := (11, 0)\<rparr>)
        [\<lparr>itemId = x, title = ''Ceremony'', startMin = 180, durationMin = 30,
          color = c, itemNotes = None\<rparr>]
       = [''2:00 PM '' @ emDash @ '' Ceremony (30 min)'']"
proof (intro conjI allI impI)
  show "length (textLines now cfg its) = length its"
    by (simp add: textLines_def sortBy_length)
  show "mset (sortBy cmpStart its) = mset its"
    by (rule sortBy_mset)
  show "sorted_wrt (\<lambda>a b. startMin a \<le> startMin b) (sortBy cmpStart its)"
    by (rule sortBy_sorted_start)
next
  fix k assume "k < length its"
  then have k: "k < length (sortBy cmpStart its)"
    by (simp add: sortBy_length)
  show "textLines now cfg its ! k =
          (let i = sortBy cmpStart its ! k
           in timeLabelFromOffset now (date cfg) (startTime cfg) (startMin i)
              @ '' '' @ emDash @ '' '' @ title i @ '' ('' @ showInt (durationMin i) @ '' min)''
              @ (if truthy (itemNotes i)
                 then [CHR 0x0A] @ ''    Notes: '' @ the (itemNotes i) else []))"
    using k by (cases "itemNotes (sortBy cmpStart its ! k)") (simp_all add: textLines_def itemLine_def Let_def)
next
  fix d assume "date cfg = Some d"
  then show "\<exists>header. exportText formatPPP now cfg its
      = Inr (header @ joinWith [CHR 0x0A] (textLines now cfg its))"
    by (simp add: exportText_def Let_def)
next
  show "textLines now (cfg\<lparr>startTime := (11, 0)\<rparr>)
        [\<lparr>itemId = x, title = ''Ceremony'', startMin = 180, durationMin = 30,
          color = c, itemNotes = None\<rparr>]
       = [''2:00 PM '' @ emDash @ '' Ceremony (30 min)'']"
    by (simp add: textLines_def sortBy_def itemLine_def timeLabel_absolute label_840
        showInt_def showNat_small)
qed

lemma textLines_twoItems:
  "textLines 0 cfg0 twoItems
     = [''2:00 PM '' @ emDash @ '' Ceremony (30 min)'', ''2:20 PM '' @ emDash @ '' Toast (10 min)'']"
  by (simp add: textLines_def twoItems_def sortBy_def cmpStart_def mkItem_def itemLine_def
      timeLabel_absolute cfg0_def format_h_mm_a_def getHours_def getMinutes_def pad2_def
      showInt_def showNat.simps)

theorem exportText_item_lines_witness:
  "(0::nat) < length twoItems
   \<and> sortBy cmpStart twoItems ! 0 = mkItem ''b'' ''Ceremony'' 180 30
   \<and> textLines 0 cfg0 twoItems ! 0 = ''2:00 PM '' @ emDash @ '' Ceremony (30 min)''
   \<and> date cfg0 = Some 0
   \<and> exportText (\<lambda>d. ''May 1st, 2027'') 0 cfg0 twoItems
       = Inr (''My Wedding Timeline'' @ [CHR 0x0A] @ ''DayFlow '' @ emDash @ '' May 1st, 2027''
              @ [CHR 0x0A, CHR 0x0A]
              @ ''2:00 PM '' @ emDash @ '' Ceremony (30 min)'' @ [CHR 0x0A]
              @ ''2:20 PM '' @ emDash @ '' Toast (10 min)'')"
proof -
  have n: "(0::nat) < length twoItems" by (simp add: twoItems_def)
  have s: "sortBy cmpStart twoItems ! 0 = mkItem ''b'' ''Ceremony'' 180 30"
    by (simp add: twoItems_def sortBy_def cmpStart_def mkItem_def)
  have l: "timeLabelFromOffset 0 (date cfg0) (startTime cfg0) 180 = ''2:00 PM''"
    by (simp add: cfg0_def timeLabel_absolute label_840)
  have f: "startMin (mkItem ''b'' ''Ceremony'' 180 30) = 180"
    "title (mkItem ''b'' ''Ceremony'' 180 30) = ''Ceremony''"
    "showInt (durationMin (mkItem ''b'' ''Ceremony'' 180 30)) = ''30''"
    "\<not> truthy (itemNotes (mkItem ''b'' ''Ceremony'' 180 30))"
    by (simp_all add: mkItem_def showInt_def showNat_small)
  from exportText_item_lines [of 0 cfg0 twoItems] n
  have "textLines 0 cfg0 twoItems ! 0 =
          (let i = sortBy cmpStart twoItems ! 0
           in timeLabelFromOffset 0 (date cfg0) (startTime cfg0) (startMin i)
              @ '' '' @ emDash @ '' '' @ title i @ '' ('' @ showInt (durationMin i) @ '' min)''
              @ (if truthy (itemNotes i)
                 then [CHR 0x0A] @ ''    Notes: '' @ the (itemNotes i) else []))"
    by blast
  then have "textLines 0 cfg0 twoItems ! 0 = ''2:00 PM '' @ emDash @ '' Ceremony (30 min)''"
    by (simp add: s l f Let_def)
  moreover have "exportText (\<lambda>d. ''May 1st, 2027'') 0 cfg0 twoItems
       = Inr (''My Wedding Timeline'' @ [CHR 0x0A] @ ''DayFlow '' @ emDash @ '' May 1st, 2027''
              @ [CHR 0x0A, CHR 0x0A]
              @ ''2:00 PM '' @ emDash @ '' Ceremony (30 min)'' @ [CHR 0x0A]
              @ ''2:20 PM '' @ emDash @ '' Toast (10 min)'')"
    unfolding exportText_def textLines_twoItems by (simp add: cfg0_def)
  moreover have "date cfg0 = Some 0" by (simp add: cfg0_def)
  ultimately show ?thesis using n s by blast
qed

text \<open>
  Claim C3 at an item three hours into a day that starts at 11:00. \<open>exportICS\<close> sets
  the minutes first, which carries the three hours into the hour field, and then sets
  the hour to that of the day start, which throws the carry away: the event runs from
  11:00 to 11:30, where the grid and the text export show 2:00 PM.
\<close>

theorem icsEvent_start_hour_divergence:
  "map evStart (icsEvents cfg0 [mkItem ''a1'' ''Ceremony'' 180 30]) = [Some (0, 11, 0)]
   \<and> map evEnd (icsEvents cfg0 [mkItem ''a1'' ''Ceremony'' 180 30]) = [Some (0, 11, 30)]
   \<and> map evTitle (icsEvents cfg0 [mkItem ''a1'' ''Ceremony'' 180 30]) = [''Ceremony'']
   \<and> map description (icsEvents cfg0 [mkItem ''a1'' ''Ceremony'' 180 30])
       = [''Created with DayFlow by Dostal Digital'']
   \<and> timeLabelFromOffset 0 (date cfg0) (startTime cfg0) 180 = ''2:00 PM''"
  by (simp add: icsEvents_def icsEvent_def cfg0_def mkItem_def dateFields_def setHours_def
      setMinutes_def addMinutes_def getHours_def getMinutes_def getDay_def timeLabel_absolute
      label_840)

section \<open>The lane loop\<close>

lemma findIndex_None_iff: "findIndex P xs = None \<longleftrightarrow> (\<forall>x \<in> set xs. \<not> P x)"
  by (induction xs) auto

lemma findIndex_SomeD: "findIndex P xs = Some l \<Longrightarrow> l < length xs \<and> P (xs ! l)"
  by (induction xs arbitrary: l) (auto split: if_splits)

lemma placedOf_snoc: "placedOf (zs @ [(it, l)]) = placedOf zs @ [\<lparr>pid = itemId it, lane = l\<rparr>]"
  by (simp add: placedOf_def)

lemma activeCount_snoc:
  "activeCount t (xs @ [x]) = activeCount t xs + (if activeAt t x then 1 else 0)"
  by (simp add: activeCount_def)

lemma activeCount_pairs: "activeCount t (map fst zs) = length (filter (activeAt t \<circ> fst) zs)"
  by (simp add: activeCount_def filter_map)

lemma lanes_all_active:
  assumes "\<forall>j < n. \<exists>a. (a, j) \<in> set zs \<and> activeAt t a"
  shows "n \<le> activeCount t (map fst zs)"
proof -
  from assms obtain f where f: "\<forall>j < n. (f j, j) \<in> set zs \<and> activeAt t (f j)"
    by metis
  let ?S = "(\<lambda>j. (f j, j)) ` {..<n}"
  have "inj_on (\<lambda>j. (f j, j)) {..<n}"
    by (rule inj_onI) simp
  then have "card ?S = n"
    by (simp add: card_image)
  moreover have "?S \<subseteq> set (filter (activeAt t \<circ> fst) zs)"
    using f by auto
  then have "card ?S \<le> card (set (filter (activeAt t \<circ> fst) zs))"
    by (intro card_mono) simp_all
  moreover have "card (set (filter (activeAt t \<circ> fst) zs)) \<le> length (filter (activeAt t \<circ> fst) zs)"
    by (rule card_length)
  ultimately show ?thesis
    unfolding activeCount_pairs by linarith
qed

lemma laneInv_new:
  assumes inv: "laneInv le zs" and none: "\<forall>e \<in> set le. \<not> e \<le> startMin it"
    and pos: "0 < durationMin it" and before: "\<forall>z \<in> set zs. startMin (fst z) \<le> startMin it"
  shows "laneInv (le @ [endMin it]) (zs @ [(it, length le)])"
proof -
  from inv have i1: "\<forall>z \<in> set zs. snd z < length le \<and> endMin (fst z) \<le> le ! snd z"
    and i2: "sorted_wrt laneSep zs"
    and i3: "\<forall>j < length le. \<exists>a. (a, j) \<in> set zs \<and> endMin a = le ! j"
    unfolding laneInv_def by simp_all
  have c1: "\<forall>z \<in> set (zs @ [(it, length le)]).
      snd z < length (le @ [endMin it]) \<and> endMin (fst z) \<le> (le @ [endMin it]) ! snd z"
    using i1 by (auto simp: nth_append)
  have "\<forall>z \<in> set zs. laneSep z (it, length le)"
    using i1 by (auto simp: laneSep_def)
  then have c2: "sorted_wrt laneSep (zs @ [(it, length le)])"
    using i2 by (simp add: sorted_wrt_append)
  have c3: "\<forall>j < length (le @ [endMin it]).
      \<exists>a. (a, j) \<in> set (zs @ [(it, length le)]) \<and> endMin a = (le @ [endMin it]) ! j"
  proof (intro allI impI)
    fix j assume "j < length (le @ [endMin it])"
    then consider "j < length le" | "j = length le" by fastforce
    then show "\<exists>a. (a, j) \<in> set (zs @ [(it, length le)]) \<and> endMin a = (le @ [endMin it]) ! j"
    proof cases
      case 1
      with i3 obtain a where "(a, j) \<in> set zs" and "endMin a = le ! j" by blast
      with 1 show ?thesis by (auto simp: nth_append)
    next
      case 2
      then show ?thesis by auto
    qed
  qed
  have "\<forall>j < length le. \<exists>a. (a, j) \<in> set zs \<and> activeAt (startMin it) a"
  proof (intro allI impI)
    fix j assume j: "j < length le"
    with i3 obtain a where a: "(a, j) \<in> set zs" and e: "endMin a = le ! j" by blast
    have "startMin it < le ! j"
      using none j by (auto simp: not_le)
    moreover have "startMin a \<le> startMin it"
      using before a by force
    ultimately have "activeAt (startMin it) a"
      using e by (simp add: activeAt_def)
    with a show "\<exists>a. (a, j) \<in> set zs \<and> activeAt (startMin it) a" by blast
  qed
  then have "length le \<le> activeCount (startMin it) (map fst zs)"
    by (rule lanes_all_active)
  moreover have "activeAt (startMin it) it"
    using pos by (simp add: activeAt_def endMin_def)
  ultimately have "length (le @ [endMin it])
      \<le> activeCount (startMin it) (map fst (zs @ [(it, length le)]))"
    by (simp add: activeCount_snoc)
  then have c4: "\<exists>t. length (le @ [endMin it]) \<le> activeCount t (map fst (zs @ [(it, length le)]))"
    by blast
  show ?thesis
    unfolding laneInv_def using c1 c2 c3 c4 by blast
qed

lemma laneInv_reuse:
  assumes inv: "laneInv le zs" and l: "l < length le" and free: "le ! l \<le> startMin it"
    and pos: "0 < durationMin it"
  shows "laneInv (le[l := endMin it]) (zs @ [(it, l)])"
proof -
  from inv have i1: "\<forall>z \<in> set zs. snd z < length le \<and> endMin (fst z) \<le> le ! snd z"
    and i2: "sorted_wrt laneSep zs"
    and i3: "\<forall>j < length le. \<exists>a. (a, j) \<in> set zs \<and> endMin a = le ! j"
    and i4: "le \<noteq> [] \<longrightarrow> (\<exists>t. length le \<le> activeCount t (map fst zs))"
    unfolding laneInv_def by simp_all
  have ends: "startMin it \<le> endMin it"
    using pos by (simp add: endMin_def)
  have c1: "\<forall>z \<in> set (zs @ [(it, l)]).
      snd z < length (le[l := endMin it]) \<and> endMin (fst z) \<le> le[l := endMin it] ! snd z"
  proof
    fix z assume "z \<in> set (zs @ [(it, l)])"
    then consider "z \<in> set zs" | "z = (it, l)" by auto
    then show "snd z < length (le[l := endMin it]) \<and> endMin (fst z) \<le> le[l := endMin it] ! snd z"
    proof cases
      case 1
      with i1 have b: "snd z < length le" and e: "endMin (fst z) \<le> le ! snd z" by simp_all
      show ?thesis
      proof (cases "snd z = l")
        case True
        with e free ends have "endMin (fst z) \<le> endMin it" by simp
        with True l show ?thesis by simp
      next
        case False
        with b e show ?thesis by simp
      qed
    next
      case 2
      with l show ?thesis by simp
    qed
  qed
  have "\<forall>z \<in> set zs. laneSep z (it, l)"
    using i1 free by (fastforce simp: laneSep_def)
  then have c2: "sorted_wrt laneSep (zs @ [(it, l)])"
    using i2 by (simp add: sorted_wrt_append)
  have c3: "\<forall>j < length (le[l := endMin it]).
      \<exists>a. (a, j) \<in> set (zs @ [(it, l)]) \<and> endMin a = le[l := endMin it] ! j"
  proof (intro allI impI)
    fix j assume j: "j < length (le[l := endMin it])"
    show "\<exists>a. (a, j) \<in> set (zs @ [(it, l)]) \<and> endMin a = le[l := endMin it] ! j"
    proof (cases "j = l")
      case True
      with l show ?thesis by auto
    next
      case False
      from j i3 obtain a where "(a, j) \<in> set zs" and "endMin a = le ! j" by auto
      with False show ?thesis by auto
    qed
  qed
  from l i4 obtain t where "length le \<le> activeCount t (map fst zs)" by auto
  then have "length (le[l := endMin it]) \<le> activeCount t (map fst (zs @ [(it, l)]))"
    by (simp add: activeCount_snoc)
  then have c4: "\<exists>t. length (le[l := endMin it]) \<le> activeCount t (map fst (zs @ [(it, l)]))"
    by blast
  show ?thesis
    unfolding laneInv_def using c1 c2 c3 c4 by blast
qed

lemma laneLoop_inv:
  "laneInv le zs \<Longrightarrow> \<forall>x \<in> set xs. 0 < durationMin x \<Longrightarrow>
   sorted_wrt (\<lambda>a b. startMin a \<le> startMin b) xs \<Longrightarrow>
   \<forall>z \<in> set zs. \<forall>x \<in> set xs. startMin (fst z) \<le> startMin x \<Longrightarrow>
   \<exists>le' zs'. laneLoop xs le (placedOf zs) = (le', placedOf zs')
      \<and> map fst zs' = map fst zs @ xs \<and> laneInv le' zs'"
proof (induction xs arbitrary: le zs)
  case Nil
  then show ?case by auto
next
  case (Cons it rest)
  have pos: "0 < durationMin it" using Cons.prems(2) by simp
  have before: "\<forall>z \<in> set zs. startMin (fst z) \<le> startMin it" using Cons.prems(4) by simp
  have rest_pos: "\<forall>x \<in> set rest. 0 < durationMin x" using Cons.prems(2) by simp
  have rest_sorted: "sorted_wrt (\<lambda>a b. startMin a \<le> startMin b) rest"
    using Cons.prems(3) by simp
  have rest_after: "\<forall>z \<in> set (zs @ [(it, l)]). \<forall>x \<in> set rest. startMin (fst z) \<le> startMin x" for l
    using Cons.prems(3,4) by auto
  show ?case
  proof (cases "findIndex (\<lambda>e. e \<le> startMin it) le")
    case None
    then have "\<forall>e \<in> set le. \<not> e \<le> startMin it"
      by (simp add: findIndex_None_iff)
    then have "laneInv (le @ [endMin it]) (zs @ [(it, length le)])"
      using Cons.prems(1) pos before by (intro laneInv_new)
    from Cons.IH [OF this rest_pos rest_sorted rest_after]
    obtain le' zs' where "laneLoop rest (le @ [endMin it]) (placedOf (zs @ [(it, length le)]))
        = (le', placedOf zs')"
      and "map fst zs' = map fst (zs @ [(it, length le)]) @ rest" and "laneInv le' zs'"
      by blast
    with None show ?thesis
      by (auto simp: placedOf_snoc endMin_def)
  next
    case (Some l)
    then have l: "l < length le" and free: "le ! l \<le> startMin it"
      using findIndex_SomeD [OF Some] by simp_all
    have "laneInv (le[l := endMin it]) (zs @ [(it, l)])"
      using Cons.prems(1) l free pos by (rule laneInv_reuse)
    from Cons.IH [OF this rest_pos rest_sorted rest_after]
    obtain le' zs' where "laneLoop rest (le[l := endMin it]) (placedOf (zs @ [(it, l)]))
        = (le', placedOf zs')"
      and "map fst zs' = map fst (zs @ [(it, l)]) @ rest" and "laneInv le' zs'"
      by blast
    with Some show ?thesis
      by (auto simp: placedOf_snoc endMin_def)
  qed
qed

lemma sorted_wrt_neq_distinct: "sorted_wrt (\<lambda>x y. f x \<noteq> f y) xs \<Longrightarrow> distinct (map f xs)"
  by (induction xs) auto

lemma laneInv_active_le:
  assumes "laneInv le zs"
  shows "activeCount t (map fst zs) \<le> length le"
proof -
  let ?fs = "filter (activeAt t \<circ> fst) zs"
  from assms have i1: "\<forall>z \<in> set zs. snd z < length le" and i2: "sorted_wrt laneSep zs"
    unfolding laneInv_def by simp_all
  have "sorted_wrt laneSep ?fs"
    using i2 by (rule sorted_wrt_filter)
  moreover have "\<And>x y. x \<in> set ?fs \<Longrightarrow> y \<in> set ?fs \<Longrightarrow> laneSep x y \<Longrightarrow> snd x \<noteq> snd y"
    by (auto simp: laneSep_def activeAt_def)
  ultimately have "sorted_wrt (\<lambda>x y. snd x \<noteq> snd y) ?fs"
    by (rule sorted_wrt_mono_rel [rotated])
  then have "distinct (map snd ?fs)"
    by (rule sorted_wrt_neq_distinct)
  then have "length ?fs = card (set (map snd ?fs))"
    by (metis distinct_card length_map)
  also have "\<dots> \<le> card {..<length le}"
    using i1 by (intro card_mono) auto
  finally show ?thesis
    unfolding activeCount_pairs by simp
qed

section \<open>Lane layout\<close>

lemma activeCount_sortBy: "activeCount t (sortBy cmp xs) = activeCount t xs"
proof -
  have "size (filter_mset (activeAt t) (mset (sortBy cmp xs)))
      = size (filter_mset (activeAt t) (mset xs))"
    by (simp only: sortBy_mset)
  then show ?thesis
    unfolding activeCount_def by (simp only: mset_filter [symmetric] size_mset)
qed

lemma foldl_upd_map_of:
  "foldl (\<lambda>m (k, v). m(k \<mapsto> v)) m0 kvs = m0 ++ map_of (rev kvs)"
proof (induction kvs arbitrary: m0)
  case Nil
  show ?case by simp
next
  case (Cons kv kvs)
  obtain k v where kv: "kv = (k, v)" by (cases kv)
  have "foldl (\<lambda>m (k, v). m(k \<mapsto> v)) m0 (kv # kvs)
      = foldl (\<lambda>m (k, v). m(k \<mapsto> v)) (m0(k \<mapsto> v)) kvs"
    by (simp add: kv)
  also have "\<dots> = m0(k \<mapsto> v) ++ map_of (rev kvs)"
    by (rule Cons)
  also have "\<dots> = m0 ++ (map_of [(k, v)] ++ map_of (rev kvs))"
    by (rule ext) (simp add: map_add_def split: option.splits)
  also have "\<dots> = m0 ++ map_of (rev (kv # kvs))"
    by (simp add: kv)
  finally show ?case .
qed

lemma fromEntries_map_of: "fromEntries kvs = map_of (rev kvs)"
  unfolding fromEntries_def by (simp add: foldl_upd_map_of)

lemma laneLoop_pids:
  "laneLoop xs le pl = (le', pl') \<Longrightarrow> map pid pl' = map pid pl @ map itemId xs"
  by (induction xs arbitrary: le pl) (auto split: option.splits)

lemma laneLoop_lane_bound:
  "laneLoop xs le pl = (le', pl') \<Longrightarrow> \<forall>p \<in> set pl. lane p < length le \<Longrightarrow>
     \<forall>p \<in> set pl'. lane p < length le'"
proof (induction xs arbitrary: le pl)
  case Nil
  then show ?case by simp
next
  case (Cons it rest)
  show ?case
  proof (cases "findIndex (\<lambda>e. e \<le> startMin it) le")
    case None
    with Cons.prems(1) have run: "laneLoop rest (le @ [startMin it + durationMin it])
        (pl @ [\<lparr>pid = itemId it, lane = length le\<rparr>]) = (le', pl')"
      by simp
    have "\<forall>p \<in> set (pl @ [\<lparr>pid = itemId it, lane = length le\<rparr>]).
        lane p < length (le @ [startMin it + durationMin it])"
      using Cons.prems(2) by (auto simp: less_Suc_eq)
    with Cons.IH [OF run] show ?thesis by blast
  next
    case (Some l)
    with Cons.prems(1) have run: "laneLoop rest (le[l := startMin it + durationMin it])
        (pl @ [\<lparr>pid = itemId it, lane = l\<rparr>]) = (le', pl')"
      by simp
    have "\<forall>p \<in> set (pl @ [\<lparr>pid = itemId it, lane = l\<rparr>]).
        lane p < length (le[l := startMin it + durationMin it])"
      using Cons.prems(2) findIndex_SomeD [OF Some] by auto
    with Cons.IH [OF run] show ?thesis by blast
  qed
qed

lemma laneLayout_byId:
  "laneRun its = (le, pl) \<Longrightarrow>
     byId (laneLayout its) = map_of (rev (map (\<lambda>p. (pid p, lane p)) pl))
     \<and> lanesCount (laneLayout its) = max 1 (length le)"
  by (simp add: laneLayout_def fromEntries_map_of)

text \<open>
  Claim C10. The layout's \<open>byId\<close> has exactly the ids of the list as its keys, each with
  one lane index below \<open>lanesCount\<close>, and \<open>lanesCount\<close> is at least one, also for the
  empty list.
\<close>

theorem laneLayout_assigns_every_id:
  "dom (byId (laneLayout its)) = itemId ` set its
   \<and> (\<forall>a \<in> set its. \<exists>l < lanesCount (laneLayout its). byId (laneLayout its) (itemId a) = Some l)
   \<and> (\<forall>i l. byId (laneLayout its) i = Some l \<longrightarrow> l < lanesCount (laneLayout its))
   \<and> 1 \<le> lanesCount (laneLayout its)
   \<and> lanesCount (laneLayout []) = 1"
proof -
  obtain le pl where run: "laneRun its = (le, pl)" by (cases "laneRun its")
  let ?kvs = "map (\<lambda>p. (pid p, lane p)) pl"
  have by_id: "byId (laneLayout its) = map_of (rev ?kvs)"
    and cnt: "lanesCount (laneLayout its) = max 1 (length le)"
    using laneLayout_byId [OF run] by simp_all
  have "map pid pl = map itemId (sortBy cmpLane its)"
    using run laneLoop_pids [of "sortBy cmpLane its" "[]" "[]" le pl] by (simp add: laneRun_def)
  then have "set (map pid pl) = itemId ` set its"
    by (simp add: sortBy_set)
  moreover have "fst ` set (rev ?kvs) = set (map pid pl)"
    by (simp add: image_image)
  ultimately have dm: "dom (byId (laneLayout its)) = itemId ` set its"
    unfolding by_id by (simp only: dom_map_of_conv_image_fst)
  have bound: "\<forall>p \<in> set pl. lane p < length le"
    using run laneLoop_lane_bound [of "sortBy cmpLane its" "[]" "[]" le pl]
    by (simp add: laneRun_def)
  have rng: "\<forall>i l. byId (laneLayout its) i = Some l \<longrightarrow> l < lanesCount (laneLayout its)"
  proof (intro allI impI)
    fix i l assume "byId (laneLayout its) i = Some l"
    then have "(i, l) \<in> set (rev ?kvs)"
      unfolding by_id by (rule map_of_SomeD)
    then obtain p where "p \<in> set pl" and "l = lane p" by auto
    with bound show "l < lanesCount (laneLayout its)"
      unfolding cnt by auto
  qed
  have ev: "\<forall>a \<in> set its. \<exists>l < lanesCount (laneLayout its). byId (laneLayout its) (itemId a) = Some l"
  proof
    fix a assume "a \<in> set its"
    then have "itemId a \<in> dom (byId (laneLayout its))"
      unfolding dm by simp
    then obtain l where "byId (laneLayout its) (itemId a) = Some l" by blast
    with rng show "\<exists>l < lanesCount (laneLayout its). byId (laneLayout its) (itemId a) = Some l"
      by blast
  qed
  have one: "1 \<le> lanesCount (laneLayout its)"
    unfolding cnt by simp
  have emp: "lanesCount (laneLayout []) = 1"
    by (simp add: laneLayout_def laneRun_def sortBy_def)
  from dm ev rng one emp show ?thesis by blast
qed

lemma sorted_wrt_either:
  "sorted_wrt P xs \<Longrightarrow> x \<in> set xs \<Longrightarrow> y \<in> set xs \<Longrightarrow> x \<noteq> y \<Longrightarrow> P x y \<or> P y x"
  by (induction xs) auto

lemma laneRun_inv:
  assumes "\<forall>i \<in> set its. 0 < durationMin i"
  shows "\<exists>le zs. laneRun its = (le, placedOf zs) \<and> map fst zs = sortBy cmpLane its \<and> laneInv le zs"
proof -
  have "laneInv [] []"
    by (simp add: laneInv_def)
  moreover have "\<forall>x \<in> set (sortBy cmpLane its). 0 < durationMin x"
    using assms by (simp add: sortBy_set)
  ultimately have "\<exists>le' zs'. laneLoop (sortBy cmpLane its) [] (placedOf []) = (le', placedOf zs')
      \<and> map fst zs' = map fst [] @ sortBy cmpLane its \<and> laneInv le' zs'"
    using sortBy_cmpLane_start [of its] laneLoop_inv [of "[]" "[]" "sortBy cmpLane its"] by simp
  then show ?thesis
    by (simp add: laneRun_def placedOf_def)
qed

text \<open>
  Claim C2. For items with distinct ids and positive durations: the loop runs over the
  items in ascending order of start, the longer first among equal starts; two different
  items with the same lane do not overlap; at no instant are more items active than
  lanes were opened; and, when there is an item at all, at some instant exactly that
  many are active, and that number is \<open>lanesCount\<close>.
\<close>

theorem laneLayout_separates_and_is_minimal:
  assumes "distinct (map itemId its)" and "\<forall>i \<in> set its. 0 < durationMin i"
  shows "sorted_wrt laneOrder (sortBy cmpLane its)
   \<and> (\<forall>a \<in> set its. \<forall>b \<in> set its.
        a \<noteq> b \<and> byId (laneLayout its) (itemId a) = byId (laneLayout its) (itemId b)
          \<longrightarrow> \<not> overlap a b)
   \<and> (\<forall>t. activeCount t its \<le> lanesUsed its)
   \<and> (its \<noteq> [] \<longrightarrow>
        (\<exists>t. activeCount t its = lanesUsed its) \<and> lanesCount (laneLayout its) = lanesUsed its)"
proof -
  from laneRun_inv [OF assms(2)] obtain le zs
    where run: "laneRun its = (le, placedOf zs)" and fs: "map fst zs = sortBy cmpLane its"
      and inv: "laneInv le zs"
    by blast
  have used: "lanesUsed its = length le"
    by (simp add: lanesUsed_def run)
  let ?kvs = "map (\<lambda>p. (pid p, lane p)) (placedOf zs)"
  have kvs: "?kvs = map (\<lambda>z. (itemId (fst z), snd z)) zs"
    by (simp add: placedOf_def case_prod_beta)
  have by_id: "byId (laneLayout its) = map_of (rev ?kvs)"
    and cnt: "lanesCount (laneLayout its) = max 1 (length le)"
    using laneLayout_byId [OF run] by simp_all
  have "map fst ?kvs = map itemId (sortBy cmpLane its)"
    unfolding kvs fs [symmetric] by simp
  moreover have "mset (map itemId (sortBy cmpLane its)) = mset (map itemId its)"
    by (simp add: sortBy_mset)
  ultimately have "distinct (map fst ?kvs)"
    using assms(1) by (metis mset_eq_imp_distinct_iff)
  then have dk: "distinct (map fst (rev ?kvs))"
    by (simp add: rev_map [symmetric])
  have look: "byId (laneLayout its) (itemId a) = Some l" if "(a, l) \<in> set zs" for a l
  proof -
    from that have "(itemId a, l) \<in> set (rev ?kvs)"
      unfolding kvs by force
    with dk show ?thesis
      unfolding by_id by (rule map_of_is_SomeI)
  qed
  have mem: "\<exists>l. (a, l) \<in> set zs" if "a \<in> set its" for a
  proof -
    from that have "a \<in> set (map fst zs)"
      unfolding fs by (simp add: sortBy_set)
    then show ?thesis by force
  qed
  from inv have sep: "sorted_wrt laneSep zs"
    and bound: "\<forall>z \<in> set zs. snd z < length le"
    and full: "le \<noteq> [] \<longrightarrow> (\<exists>t. length le \<le> activeCount t (map fst zs))"
    unfolding laneInv_def by simp_all
  have c1: "\<forall>a \<in> set its. \<forall>b \<in> set its.
      a \<noteq> b \<and> byId (laneLayout its) (itemId a) = byId (laneLayout its) (itemId b)
        \<longrightarrow> \<not> overlap a b"
  proof (intro ballI impI)
    fix a b assume a: "a \<in> set its" and b: "b \<in> set its"
      and h: "a \<noteq> b \<and> byId (laneLayout its) (itemId a) = byId (laneLayout its) (itemId b)"
    from mem [OF a] obtain la where la: "(a, la) \<in> set zs" by blast
    from mem [OF b] obtain lb where lb: "(b, lb) \<in> set zs" by blast
    from h look [OF la] look [OF lb] have same: "la = lb" by simp
    from h have "(a, la) \<noteq> (b, lb)" by simp
    with sep la lb have "laneSep (a, la) (b, lb) \<or> laneSep (b, lb) (a, la)"
      by (intro sorted_wrt_either)
    with same show "\<not> overlap a b"
      by (auto simp: laneSep_def overlap_def)
  qed
  have act: "activeCount t its = activeCount t (map fst zs)" for t
    unfolding fs by (simp add: activeCount_sortBy)
  have c2: "\<forall>t. activeCount t its \<le> lanesUsed its"
    unfolding act used using laneInv_active_le [OF inv] by simp
  have c3: "its \<noteq> [] \<longrightarrow>
      (\<exists>t. activeCount t its = lanesUsed its) \<and> lanesCount (laneLayout its) = lanesUsed its"
  proof
    assume "its \<noteq> []"
    then obtain a where "a \<in> set its" by (cases its) auto
    from mem [OF this] bound have ne: "le \<noteq> []" by fastforce
    with full obtain t where "length le \<le> activeCount t (map fst zs)" by blast
    with c2 have "activeCount t its = lanesUsed its"
      unfolding act used by (simp add: le_antisym)
    moreover from ne have "lanesCount (laneLayout its) = lanesUsed its"
      unfolding cnt used by (cases le) simp_all
    ultimately show "(\<exists>t. activeCount t its = lanesUsed its)
        \<and> lanesCount (laneLayout its) = lanesUsed its"
      by blast
  qed
  from sortBy_cmpLane_order c1 c2 c3 show ?thesis by blast
qed

lemma laneRun_three:
  "laneRun threeOverlapping =
     ([30, 40, 50], [\<lparr>pid = ''a'', lane = 0\<rparr>, \<lparr>pid = ''b'', lane = 1\<rparr>, \<lparr>pid = ''c'', lane = 2\<rparr>])"
  by (simp add: laneRun_def threeOverlapping_def sortBy_def cmpLane_def mkItem_def)

lemma laneRun_two:
  "laneRun twoTouching = ([60], [\<lparr>pid = ''a'', lane = 0\<rparr>, \<lparr>pid = ''b'', lane = 0\<rparr>])"
  by (simp add: laneRun_def twoTouching_def sortBy_def cmpLane_def mkItem_def)

lemma three_facts:
  "distinct (map itemId threeOverlapping)" "list_all (\<lambda>i. 0 < durationMin i) threeOverlapping"
  "threeOverlapping \<noteq> []" "activeCount 20 threeOverlapping = 3"
  by (simp_all add: threeOverlapping_def mkItem_def activeCount_def activeAt_def endMin_def)

lemma two_facts:
  "distinct (map itemId twoTouching)" "list_all (\<lambda>i. 0 < durationMin i) twoTouching"
  "twoTouching \<noteq> []"
  by (simp_all add: twoTouching_def mkItem_def)

lemma byId_two:
  "byId (laneLayout twoTouching) ''a'' = Some 0" "byId (laneLayout twoTouching) ''b'' = Some 0"
  using laneLayout_byId [OF laneRun_two] by simp_all

lemma byId_three:
  "byId (laneLayout threeOverlapping) ''a'' = Some 0"
  "byId (laneLayout threeOverlapping) ''b'' = Some 1"
  "byId (laneLayout threeOverlapping) ''c'' = Some 2"
  using laneLayout_byId [OF laneRun_three] by simp_all

text \<open>
  Three mutually overlapping items get three lanes; two items that touch at 30 share
  lane 0.
\<close>

theorem laneLayout_separates_and_is_minimal_witness:
  "distinct (map itemId threeOverlapping) \<and> list_all (\<lambda>i. 0 < durationMin i) threeOverlapping
   \<and> threeOverlapping \<noteq> []
   \<and> activeCount 20 threeOverlapping = 3
   \<and> lanesUsed threeOverlapping = 3
   \<and> lanesCount (laneLayout threeOverlapping) = 3
   \<and> distinct (map itemId twoTouching) \<and> list_all (\<lambda>i. 0 < durationMin i) twoTouching
   \<and> byId (laneLayout twoTouching) ''a'' = Some 0
   \<and> byId (laneLayout twoTouching) ''b'' = Some 0
   \<and> lanesCount (laneLayout twoTouching) = 1
   \<and> \<not> overlap (mkItem ''a'' ''Ceremony'' 0 30) (mkItem ''b'' ''First Look'' 30 30)"
proof -
  have p3: "\<forall>i \<in> set threeOverlapping. 0 < durationMin i"
    using three_facts(2) by (simp only: list_all_iff)
  have p2: "\<forall>i \<in> set twoTouching. 0 < durationMin i"
    using two_facts(2) by (simp only: list_all_iff)
  note T3 = laneLayout_separates_and_is_minimal [OF three_facts(1) p3]
  note T2 = laneLayout_separates_and_is_minimal [OF two_facts(1) p2]
  have u3: "lanesUsed threeOverlapping = 3"
    by (simp add: lanesUsed_def laneRun_three)
  from T3 three_facts(3) have "lanesCount (laneLayout threeOverlapping) = lanesUsed threeOverlapping"
    by blast
  then have c3: "lanesCount (laneLayout threeOverlapping) = 3"
    by (simp only: u3)
  from T2 two_facts(3) have "lanesCount (laneLayout twoTouching) = lanesUsed twoTouching"
    by blast
  then have c2: "lanesCount (laneLayout twoTouching) = 1"
    by (simp add: lanesUsed_def laneRun_two)
  have in2: "mkItem ''a'' ''Ceremony'' 0 30 \<in> set twoTouching"
    "mkItem ''b'' ''First Look'' 30 30 \<in> set twoTouching"
    by (simp_all add: twoTouching_def)
  have ids: "itemId (mkItem ''a'' ''Ceremony'' 0 30) = ''a''"
    "itemId (mkItem ''b'' ''First Look'' 30 30) = ''b''"
    "mkItem ''a'' ''Ceremony'' 0 30 \<noteq> mkItem ''b'' ''First Look'' 30 30"
    by (simp_all add: mkItem_def)
  have "byId (laneLayout twoTouching) (itemId (mkItem ''a'' ''Ceremony'' 0 30))
      = byId (laneLayout twoTouching) (itemId (mkItem ''b'' ''First Look'' 30 30))"
    by (simp only: ids byId_two)
  with T2 in2 ids(3) have no: "\<not> overlap (mkItem ''a'' ''Ceremony'' 0 30) (mkItem ''b'' ''First Look'' 30 30)"
    by blast
  from three_facts two_facts byId_two u3 c3 c2 no show ?thesis by blast
qed

theorem laneLayout_assigns_every_id_witness:
  "byId (laneLayout threeOverlapping) ''b'' = Some 1
   \<and> (1::nat) < lanesCount (laneLayout threeOverlapping)
   \<and> mkItem ''c'' ''Portraits'' 20 30 \<in> set threeOverlapping
   \<and> byId (laneLayout threeOverlapping) (itemId (mkItem ''c'' ''Portraits'' 20 30)) = Some 2
   \<and> dom (byId (laneLayout threeOverlapping)) = {''a'', ''b'', ''c''}"
proof -
  note T = laneLayout_assigns_every_id [of threeOverlapping]
  from T byId_three(2) have a: "(1::nat) < lanesCount (laneLayout threeOverlapping)"
    by blast
  have m: "mkItem ''c'' ''Portraits'' 20 30 \<in> set threeOverlapping"
    by (simp add: threeOverlapping_def)
  have c: "byId (laneLayout threeOverlapping) (itemId (mkItem ''c'' ''Portraits'' 20 30)) = Some 2"
    by (simp add: mkItem_def byId_three)
  from T have "dom (byId (laneLayout threeOverlapping)) = itemId ` set threeOverlapping"
    by blast
  then have d: "dom (byId (laneLayout threeOverlapping)) = {''a'', ''b'', ''c''}"
    by (auto simp: threeOverlapping_def mkItem_def)
  from byId_three(2) a m c d show ?thesis by blast
qed


end
